theory Spec2Isabelle
  imports Complex_Main
begin

section \<open>Python values\<close>

text \<open>
  The provider payload, the normalized records and the rows sent to the store are all
  JSON-shaped Python values: \<open>None\<close>, booleans, unbounded integers, floats, strings, lists
  and dicts with string keys. A float is represented by the rational it denotes (no
  arithmetic is performed on payload numbers; the non-finite values, which standard JSON
  lacks, are not represented). A dict is an association list in insertion order, looked up
  with \<open>map_of\<close>; a Python dict has no duplicate keys.
\<close>

datatype json =
    JNull
  | JBool bool
  | JInt int
  | JFloat rat
  | JStr string
  | JList "json list"
  | JObj "(string \<times> json) list"

type_synonym dict = "(string \<times> json) list"

text \<open>The exceptions the modelled code can raise; \<open>KeyError\<close> carries the missing key.\<close>

datatype error = KeyError string | AttributeError | TypeError | ValueError

text \<open>Sequencing of fallible steps: the first exception ends the computation.\<close>

definition ebind :: "error + 'a \<Rightarrow> ('a \<Rightarrow> error + 'b) \<Rightarrow> error + 'b" where
  "ebind m f = (case m of Inl e \<Rightarrow> Inl e | Inr x \<Rightarrow> f x)"

text \<open>
  A \<open>for\<close> loop that appends one computed element per input element:
  the first exception raised by the body leaves the loop.
\<close>

fun mapM :: "('a \<Rightarrow> error + 'b) \<Rightarrow> 'a list \<Rightarrow> error + 'b list" where
  "mapM f [] = Inr []"
| "mapM f (x # xs) = ebind (f x) (\<lambda>y. ebind (mapM f xs) (\<lambda>ys. Inr (y # ys)))"

text \<open>
  A dict display \<open>{k1: e1, k2: e2, ...}\<close>: the value expressions are evaluated in
  order, and the first exception leaves the display.
\<close>

definition dict_literal :: "(string \<times> (error + json)) list \<Rightarrow> error + dict" where
  "dict_literal items = mapM (\<lambda>(k, m). ebind m (\<lambda>v. Inr (k, v))) items"

text \<open>\<open>x.get(k, dflt)\<close>: only a dict has the method \<open>get\<close>.\<close>

fun py_get :: "json \<Rightarrow> string \<Rightarrow> json \<Rightarrow> error + json" where
  "py_get (JObj kvs) k dflt = Inr (case map_of kvs k of None \<Rightarrow> dflt | Some v \<Rightarrow> v)"
| "py_get _ k dflt = Inl AttributeError"

text \<open>\<open>w.get(k)\<close> and \<open>w[k]\<close> on a value known to be a dict.\<close>

definition dict_get :: "dict \<Rightarrow> string \<Rightarrow> json" where
  "dict_get w k = (case map_of w k of None \<Rightarrow> JNull | Some v \<Rightarrow> v)"

definition py_getitem :: "dict \<Rightarrow> string \<Rightarrow> error + json" where
  "py_getitem w k = (case map_of w k of None \<Rightarrow> Inl (KeyError k) | Some v \<Rightarrow> Inr v)"

text \<open>
  The elements a \<open>for\<close> loop sees: those of a list, the keys of a dict, the characters of
  a string; the other values are not iterable.
\<close>

fun py_iter :: "json \<Rightarrow> error + json list" where
  "py_iter (JList xs) = Inr xs"
| "py_iter (JObj kvs) = Inr (map (\<lambda>kv. JStr (fst kv)) kvs)"
| "py_iter (JStr s) = Inr (map (\<lambda>c. JStr [c]) s)"
| "py_iter _ = Inl TypeError"

text \<open>Truth value of a Python value, as tested by \<open>not x\<close> and \<open>x if x else y\<close>.\<close>

fun py_truthy :: "json \<Rightarrow> bool" where
  "py_truthy JNull = False"
| "py_truthy (JBool b) = b"
| "py_truthy (JInt i) = (i \<noteq> 0)"
| "py_truthy (JFloat r) = (r \<noteq> 0)"
| "py_truthy (JStr s) = (s \<noteq> [])"
| "py_truthy (JList xs) = (xs \<noteq> [])"
| "py_truthy (JObj kvs) = (kvs \<noteq> [])"

text \<open>
  Python's \<open>==\<close> on hashable values: booleans, integers and floats compare by numeric
  value (\<open>True == 1 == 1.0\<close>), \<open>None\<close> and strings only equal themselves.
\<close>

fun py_num :: "json \<Rightarrow> rat option" where
  "py_num (JBool b) = Some (if b then 1 else 0)"
| "py_num (JInt i) = Some (of_int i)"
| "py_num (JFloat r) = Some r"
| "py_num _ = None"

definition py_eq :: "json \<Rightarrow> json \<Rightarrow> bool" where
  "py_eq a b = (case py_num a of
                  Some x \<Rightarrow> (case py_num b of Some y \<Rightarrow> x = y | None \<Rightarrow> False)
                | None \<Rightarrow> (case py_num b of Some y \<Rightarrow> False | None \<Rightarrow> a = b))"

fun py_hashable :: "json \<Rightarrow> bool" where
  "py_hashable (JList xs) = False"
| "py_hashable (JObj kvs) = False"
| "py_hashable _ = True"

section \<open>Response Normalizer (weather\_client.py)\<close>

text \<open>Body of the loop over \<open>forecast.get("forecastday", [])\<close>: one forecast day.\<close>

definition forecast_day :: "json \<Rightarrow> error + json" where
  "forecast_day day_data =
     ebind (py_get day_data ''day'' (JObj [])) (\<lambda>day_info.
     ebind (py_get day_data ''astro'' (JObj [])) (\<lambda>astro.
     ebind (py_get day_info ''condition'' (JObj [])) (\<lambda>day_condition.
     ebind (dict_literal
       [(''date'', py_get day_data ''date'' JNull),
        (''maxtemp_c'', py_get day_info ''maxtemp_c'' JNull),
        (''mintemp_c'', py_get day_info ''mintemp_c'' JNull),
        (''avgtemp_c'', py_get day_info ''avgtemp_c'' JNull),
        (''maxwind_kph'', py_get day_info ''maxwind_kph'' JNull),
        (''totalprecip_mm'', py_get day_info ''totalprecip_mm'' JNull),
        (''avghumidity'', py_get day_info ''avghumidity'' JNull),
        (''condition_text'', py_get day_condition ''text'' JNull),
        (''condition_icon'', py_get day_condition ''icon'' JNull),
        (''daily_chance_of_rain'', py_get day_info ''daily_chance_of_rain'' JNull),
        (''daily_chance_of_snow'', py_get day_info ''daily_chance_of_snow'' JNull),
        (''uv'', py_get day_info ''uv'' JNull),
        (''sunrise'', py_get astro ''sunrise'' JNull),
        (''sunset'', py_get astro ''sunset'' JNull)])
       (\<lambda>d. Inr (JObj d)))))"

text \<open>Body of the loop over \<open>alerts_data.get("alert", [])\<close>: one alert.\<close>

definition alert_entry :: "json \<Rightarrow> error + json" where
  "alert_entry alert =
     ebind (dict_literal
       [(''event'', py_get alert ''event'' JNull),
        (''headline'', py_get alert ''headline'' JNull),
        (''description'', py_get alert ''desc'' JNull),
        (''severity'', py_get alert ''severity'' JNull),
        (''urgency'', py_get alert ''urgency'' JNull),
        (''areas'', py_get alert ''areas'' JNull),
        (''category'', py_get alert ''category'' JNull),
        (''certainty'', py_get alert ''certainty'' JNull),
        (''instruction'', py_get alert ''instruction'' JNull),
        (''effective'', py_get alert ''effective'' JNull),
        (''expires'', py_get alert ''expires'' JNull)])
       (\<lambda>d. Inr (JObj d))"

text \<open>
  \<open>_parse_response(data, ward_code)\<close>. The result is the record (a dict) of the ward, or
  the exception raised when a container of the payload does not have the expected shape.
\<close>

definition parse_response :: "json \<Rightarrow> string \<Rightarrow> error + dict" where
  "parse_response data ward_code =
     ebind (py_get data ''current'' (JObj [])) (\<lambda>current.
     ebind (py_get data ''forecast'' (JObj [])) (\<lambda>forecast.
     ebind (py_get data ''alerts'' (JObj [])) (\<lambda>alerts_data.
     ebind (py_get current ''condition'' (JObj [])) (\<lambda>condition.
     ebind (py_get forecast ''forecastday'' (JList [])) (\<lambda>forecastday.
     ebind (py_iter forecastday) (\<lambda>days.
     ebind (mapM forecast_day days) (\<lambda>forecast_days.
     ebind (py_get alerts_data ''alert'' (JList [])) (\<lambda>alert_list.
     ebind (py_iter alert_list) (\<lambda>alert_items.
     ebind (mapM alert_entry alert_items) (\<lambda>alerts.
     dict_literal
       [(''ward_code'', Inr (JStr ward_code)),
        (''temperature_c'', py_get current ''temp_c'' JNull),
        (''condition_text'', py_get condition ''text'' JNull),
        (''condition_icon'', py_get condition ''icon'' JNull),
        (''wind_kph'', py_get current ''wind_kph'' JNull),
        (''humidity'', py_get current ''humidity'' JNull),
        (''is_day'', ebind (py_get current ''is_day'' JNull)
                       (\<lambda>v. Inr (JBool (py_eq v (JInt 1))))),
        (''precip_mm'', py_get current ''precip_mm'' JNull),
        (''forecast_days'', Inr (JList forecast_days)),
        (''alerts'', Inr (JList alerts)),
        (''alerts_summary'', Inr (if alerts \<noteq> [] then JList alerts else JNull)),
        (''raw'', Inr data)]))))))))))"

section \<open>Provider Client (weather\_client.py)\<close>

text \<open>
  What one attempt of \<open>session.get\<close> meets: a response with its status and body, or an
  exception of the classes the \<open>except\<close> clause catches (\<open>aiohttp.ClientError\<close>,
  \<open>asyncio.TimeoutError\<close>). The body of a response is the JSON value \<open>resp.json()\<close>
  decodes, or undecodable text, for which \<open>resp.json()\<close> raises a \<open>ValueError\<close>, or a
  body whose content type \<open>resp.json()\<close> refuses with \<open>aiohttp.ContentTypeError\<close>, which
  is a \<open>ClientError\<close> and so reaches the \<open>except\<close> clause.
  The network is a function from the attempt number to what that attempt meets.
\<close>

datatype body = Json json | InvalidJson | WrongContentType

datatype response = Response nat body | ClientError

text \<open>What the fetch of one ward does that can be observed from outside.\<close>

datatype event = Request | Sleep nat

definition retry_after :: "nat \<Rightarrow> event list \<times> 'a \<Rightarrow> event list \<times> 'a" where
  "retry_after wait rest = (Request # Sleep wait # fst rest, snd rest)"

text \<open>
  The loop \<open>for attempt in range(3)\<close>, over the attempt numbers still to come. The
  result is the trace of the requests and sleeps, and the value returned (\<open>None\<close> is the
  failure signal) or the exception that leaves the function.
\<close>

fun attempts :: "(nat \<Rightarrow> response) \<Rightarrow> string \<Rightarrow> nat list \<Rightarrow> event list \<times> (error + dict option)" where
  "attempts net ward_code [] = ([], Inr None)"
| "attempts net ward_code (attempt # rest) =
     (case net attempt of
        Response status b \<Rightarrow>
          if status = 200 then
            (case b of
               Json data \<Rightarrow>
                 ([Request], ebind (parse_response data ward_code) (\<lambda>r. Inr (Some r)))
             | InvalidJson \<Rightarrow> ([Request], Inl ValueError)
             | WrongContentType \<Rightarrow>
                 if attempt < 2 then
                   retry_after (2 ^ (attempt + 1)) (attempts net ward_code rest)
                 else ([Request], Inr None))
          else if status = 429 then
            retry_after (2 ^ (attempt + 1)) (attempts net ward_code rest)
          else ([Request], Inr None)
      | ClientError \<Rightarrow>
          if attempt < 2 then
            retry_after (2 ^ (attempt + 1)) (attempts net ward_code rest)
          else ([Request], Inr None))"

definition fetch_ward_weather :: "(nat \<Rightarrow> response) \<Rightarrow> string \<Rightarrow> event list \<times> (error + dict option)" where
  "fetch_ward_weather net ward_code = attempts net ward_code [0, 1, 2]"

section \<open>The store\<close>

text \<open>
  The store is an external service, reached through three kinds of call: an upsert of
  weather rows into \<open>weather_cache\<close> (on conflict of \<open>ward_code\<close> the row is replaced), a
  delete of the rows of \<open>weather_alerts\<close> whose \<open>ward_code\<close> equals a value, and an insert
  of rows into \<open>weather_alerts\<close>. Its state holds the two tables and the calls issued so
  far, in order. Whether a call raises is decided by a function from the number of calls
  issued before it; a call that raises leaves the tables as they were.
\<close>

datatype store_call = Upsert "dict list" | DeleteEq json | Insert "dict list"

record store =
  weather_cache :: "dict list"
  weather_alerts :: "dict list"
  calls :: "store_call list"

definition upsert_row :: "dict \<Rightarrow> dict list \<Rightarrow> dict list" where
  "upsert_row row tbl =
     (if map_of row ''ward_code'' \<in> set (map (\<lambda>r. map_of r ''ward_code'') tbl)
      then map (\<lambda>r. if map_of r ''ward_code'' = map_of row ''ward_code'' then row else r) tbl
      else tbl @ [row])"

fun apply_call :: "store_call \<Rightarrow> store \<Rightarrow> store" where
  "apply_call (Upsert rows) st = st\<lparr>weather_cache := fold upsert_row rows (weather_cache st)\<rparr>"
| "apply_call (DeleteEq c) st =
     st\<lparr>weather_alerts := filter (\<lambda>r. map_of r ''ward_code'' \<noteq> Some c) (weather_alerts st)\<rparr>"
| "apply_call (Insert rows) st = st\<lparr>weather_alerts := weather_alerts st @ rows\<rparr>"

text \<open>\<open>....execute()\<close>: the flag returned is \<open>False\<close> when the call raised.\<close>

definition execute :: "(nat \<Rightarrow> bool) \<Rightarrow> store_call \<Rightarrow> store \<Rightarrow> bool \<times> store" where
  "execute fails c st =
     (if fails (length (calls st)) then (False, st\<lparr>calls := calls st @ [c]\<rparr>)
      else (True, (apply_call c st)\<lparr>calls := calls st @ [c]\<rparr>))"

text \<open>\<open>range(0, stop, step)\<close> for a positive step.\<close>

definition range_step :: "nat \<Rightarrow> nat \<Rightarrow> nat list" where
  "range_step stop step = map (\<lambda>k. k * step) [0..<(stop + step - 1) div step]"

section \<open>Upsert Writer (supabase\_client.py)\<close>

subsection \<open>Weather rows\<close>

text \<open>The row built from one result \<open>w\<close>; \<open>w[k]\<close> raises \<open>KeyError\<close> when \<open>k\<close> is missing.\<close>

definition weather_row :: "string \<Rightarrow> dict \<Rightarrow> error + dict" where
  "weather_row now w =
     dict_literal
       [(''ward_code'', py_getitem w ''ward_code''),
        (''latitude'', py_getitem w ''latitude''),
        (''longitude'', py_getitem w ''longitude''),
        (''temperature_c'', py_getitem w ''temperature_c''),
        (''condition_text'', py_getitem w ''condition_text''),
        (''condition_icon'', py_getitem w ''condition_icon''),
        (''wind_kph'', py_getitem w ''wind_kph''),
        (''humidity'', py_getitem w ''humidity''),
        (''is_day'', py_getitem w ''is_day''),
        (''precip_mm'', py_getitem w ''precip_mm''),
        (''daily_forecast'', py_getitem w ''forecast_days''),
        (''alerts_summary'', py_getitem w ''alerts_summary''),
        (''raw_response'', py_getitem w ''raw''),
        (''fetched_at'', Inr (JStr now)),
        (''updated_at'', Inr (JStr now))]"

text \<open>
  The loop \<open>for i in range(0, len(rows), chunk_size)\<close> with its \<open>try\<close> inside: a chunk
  whose call raises is logged and the loop goes on.
\<close>

fun upsert_chunks :: "(nat \<Rightarrow> bool) \<Rightarrow> dict list \<Rightarrow> nat \<Rightarrow> nat list \<Rightarrow> nat \<Rightarrow> store \<Rightarrow> nat \<times> store" where
  "upsert_chunks fails rows chunk_size [] upserted st = (upserted, st)"
| "upsert_chunks fails rows chunk_size (i # rest) upserted st =
     (let chunk = take chunk_size (drop i rows);
          r = execute fails (Upsert chunk) st
      in upsert_chunks fails rows chunk_size rest
           (if fst r then upserted + length chunk else upserted) (snd r))"

text \<open>
  \<open>upsert_weather_batch(client, weather_results)\<close>; \<open>now\<close> is the timestamp it reads.
  The rows are all built before the first call, outside any \<open>try\<close>.
\<close>

definition upsert_weather_batch :: "string \<Rightarrow> (nat \<Rightarrow> bool) \<Rightarrow> dict list \<Rightarrow> store \<Rightarrow> (error + nat) \<times> store" where
  "upsert_weather_batch now fails weather_results st =
     (case mapM (weather_row now) weather_results of
        Inl e \<Rightarrow> (Inl e, st)
      | Inr rows \<Rightarrow>
          if rows = [] then (Inr 0, st)
          else (let r = upsert_chunks fails rows 500 (range_step (length rows) 500) 0 st
                in (Inr (fst r), snd r)))"

subsection \<open>Alert rows\<close>

definition alert_row :: "json \<Rightarrow> json \<Rightarrow> error + dict" where
  "alert_row ward_code alert =
     dict_literal
       [(''ward_code'', Inr ward_code),
        (''event'', py_get alert ''event'' JNull),
        (''headline'', py_get alert ''headline'' JNull),
        (''description'', py_get alert ''description'' JNull),
        (''severity'', py_get alert ''severity'' JNull),
        (''urgency'', py_get alert ''urgency'' JNull),
        (''areas'', py_get alert ''areas'' JNull),
        (''category'', py_get alert ''category'' JNull),
        (''certainty'', py_get alert ''certainty'' JNull),
        (''instruction'', py_get alert ''instruction'' JNull),
        (''effective'', py_get alert ''effective'' JNull),
        (''expires'', py_get alert ''expires'' JNull)]"

text \<open>
  Body of the collecting loop for one result: \<open>None\<close> when the result is skipped
  (\<open>continue\<close>), otherwise its ward code and the alert rows it contributes. Adding the
  ward code to the set needs it hashable.
\<close>

definition record_alerts :: "dict \<Rightarrow> error + (json \<times> dict list) option" where
  "record_alerts w =
     (if \<not> py_truthy (dict_get w ''alerts'') then Inr None
      else ebind (py_getitem w ''ward_code'') (\<lambda>ward_code.
           if \<not> py_hashable ward_code then Inl TypeError
           else ebind (py_getitem w ''alerts'') (\<lambda>alerts.
                ebind (py_iter alerts) (\<lambda>items.
                ebind (mapM (alert_row ward_code) items) (\<lambda>new_rows.
                Inr (Some (ward_code, new_rows)))))))"

text \<open>
  The set \<open>ward_codes_with_alerts\<close> is represented by the list of its members, no two
  of them equal in Python's sense. The order of this list (that of the first insertions)
  is a matter of representation only: the order in which Python iterates over a set is
  not specified, and the writer below takes it as a parameter.
\<close>

definition set_add :: "json list \<Rightarrow> json \<Rightarrow> json list" where
  "set_add s x = (if list_ex (\<lambda>y. py_eq y x) s then s else s @ [x])"

fun collect_alerts :: "dict list \<Rightarrow> dict list \<Rightarrow> json list \<Rightarrow> error + (dict list \<times> json list)" where
  "collect_alerts [] alert_rows codes = Inr (alert_rows, codes)"
| "collect_alerts (w # ws) alert_rows codes =
     (case record_alerts w of
        Inl e \<Rightarrow> Inl e
      | Inr None \<Rightarrow> collect_alerts ws alert_rows codes
      | Inr (Some (ward_code, new_rows)) \<Rightarrow>
          collect_alerts ws (alert_rows @ new_rows) (set_add codes ward_code))"

text \<open>
  Both iterations inside the \<open>try\<close>: the flag, respectively \<open>None\<close>, says that a call
  raised, which leaves the \<open>try\<close> at once.
\<close>

fun delete_alerts :: "(nat \<Rightarrow> bool) \<Rightarrow> json list \<Rightarrow> store \<Rightarrow> bool \<times> store" where
  "delete_alerts fails [] st = (True, st)"
| "delete_alerts fails (c # cs) st =
     (let r = execute fails (DeleteEq c) st
      in if fst r then delete_alerts fails cs (snd r) else (False, snd r))"

fun insert_chunks :: "(nat \<Rightarrow> bool) \<Rightarrow> dict list \<Rightarrow> nat \<Rightarrow> nat list \<Rightarrow> nat \<Rightarrow> store \<Rightarrow> nat option \<times> store" where
  "insert_chunks fails rows chunk_size [] inserted st = (Some inserted, st)"
| "insert_chunks fails rows chunk_size (i # rest) inserted st =
     (let chunk = take chunk_size (drop i rows);
          r = execute fails (Insert chunk) st
      in if fst r then insert_chunks fails rows chunk_size rest (inserted + length chunk) (snd r)
         else (None, snd r))"

text \<open>
  \<open>upsert_alerts(client, weather_results)\<close>. The parameter \<open>order\<close> stands for the
  iteration of the loop \<open>for ward_code in ward_codes_with_alerts\<close>: it maps the list that
  represents the set to the list of its members in the order in which the loop visits
  them. The statements about the writer assume of it only that it visits the members of
  the set (\<open>set (order codes) = set codes\<close>).
\<close>

definition upsert_alerts :: "(json list \<Rightarrow> json list) \<Rightarrow> (nat \<Rightarrow> bool) \<Rightarrow> dict list \<Rightarrow> store \<Rightarrow> (error + nat) \<times> store" where
  "upsert_alerts order fails weather_results st =
     (case collect_alerts weather_results [] [] of
        Inl e \<Rightarrow> (Inl e, st)
      | Inr (alert_rows, codes) \<Rightarrow>
          if alert_rows = [] then (Inr 0, st)
          else (let d = delete_alerts fails (order codes) st in
                if \<not> fst d then (Inr 0, snd d)
                else (let r = insert_chunks fails alert_rows 500
                                (range_step (length alert_rows) 500) 0 (snd d)
                      in case fst r of
                           None \<Rightarrow> (Inr 0, snd r)
                         | Some inserted \<Rightarrow> (Inr inserted, snd r))))"

section \<open>Batch Scheduler and Run Aggregator (main.py)\<close>

text \<open>
  A ward as the ward source returns it (the WardCoordinate of the data model): the code
  reads its three fields and converts the coordinates with \<open>float\<close>, which is the
  identity on a row of the expected type.
\<close>

record ward =
  ward_code :: string
  latitude :: rat
  longitude :: rat

text \<open>The run configuration and the environment variables \<open>main\<close> validates.\<close>

record config =
  batch_size :: int
  delay_ms :: int
  api_key :: "string option"
  supabase_url :: "string option"
  supabase_key :: "string option"

text \<open>\<open>not v\<close> for the result of \<open>os.getenv\<close>.\<close>

fun env_missing :: "string option \<Rightarrow> bool" where
  "env_missing None = True"
| "env_missing (Some v) = (v = [])"

text \<open>
  The local variables of \<open>main\<close> that the batch loop updates, with the store and the
  inter-batch sleeps (in milliseconds) performed so far.
\<close>

record run_state =
  all_results :: "dict list"
  failed_count :: nat
  db :: store
  throttles :: "int list"

record summary =
  total_wards :: nat
  successful :: nat
  failed :: nat
  elapsed_seconds :: rat
  wards_per_second :: rat

datatype outcome = Exited nat | Raised error | Completed summary

text \<open>
  \<open>asyncio.gather\<close> over the fetches of one batch. The network is indexed by the position
  of the ward in the ward list, then by the attempt. The results come back in the order of
  the batch; the outcome of a fetch depends on its own responses only, so the interleaving
  of the tasks does not change them. An exception raised by a fetch leaves \<open>gather\<close>
  (here: that of the first such ward in batch order).
\<close>

definition gather :: "(nat \<Rightarrow> nat \<Rightarrow> response) \<Rightarrow> nat \<Rightarrow> ward list \<Rightarrow> error + dict option list" where
  "gather net batch_start batch =
     mapM (\<lambda>iw. snd (fetch_ward_weather (net (fst iw)) (ward_code (snd iw))))
          (enumerate batch_start batch)"

text \<open>
  The two writes of a batch, weather rows first; an exception leaves \<open>main\<close>. As in the
  alert writer, \<open>order\<close> is the iteration order of the set of ward codes.
\<close>

definition write_batch :: "(json list \<Rightarrow> json list) \<Rightarrow> (nat \<Rightarrow> bool) \<Rightarrow> string \<Rightarrow> dict list \<Rightarrow> store \<Rightarrow> error option \<times> store" where
  "write_batch order fails now batch_results st =
     (case upsert_weather_batch now fails batch_results st of
        (Inl e, st1) \<Rightarrow> (Some e, st1)
      | (Inr upserted, st1) \<Rightarrow>
          (case upsert_alerts order fails batch_results st1 of
             (Inl e, st2) \<Rightarrow> (Some e, st2)
           | (Inr alerts_count, st2) \<Rightarrow> (None, st2)))"

text \<open>The comprehension \<open>[r for r in results if r is not None]\<close>.\<close>

definition not_none :: "'a option list \<Rightarrow> 'a list" where
  "not_none results = map the (filter (\<lambda>r. r \<noteq> None) results)"

text \<open>
  Body of the loop \<open>for batch_start in range(0, total_wards, batch_size)\<close>. The counters
  are updated before the writes, so the state keeps them when a write raises.
\<close>

definition batch_body :: "config \<Rightarrow> ward list \<Rightarrow> (nat \<Rightarrow> nat \<Rightarrow> response) \<Rightarrow> (json list \<Rightarrow> json list) \<Rightarrow> (nat \<Rightarrow> bool) \<Rightarrow> (nat \<Rightarrow> string) \<Rightarrow> nat \<Rightarrow> run_state \<Rightarrow> error option \<times> run_state" where
  "batch_body cfg wards net order fails now batch_start s =
     (let batch_end = min (batch_start + nat (batch_size cfg)) (length wards);
          batch = take (batch_end - batch_start) (drop batch_start wards)
      in case gather net batch_start batch of
           Inl e \<Rightarrow> (Some e, s)
         | Inr results \<Rightarrow>
             (let batch_results = not_none results;
                  batch_failed = length results - length batch_results;
                  s1 = s\<lparr>all_results := all_results s @ batch_results,
                         failed_count := failed_count s + batch_failed\<rparr>;
                  w = (if batch_results \<noteq> []
                       then write_batch order fails (now batch_start) batch_results (db s1)
                       else (None, db s1))
              in case fst w of
                   Some e \<Rightarrow> (Some e, s1\<lparr>db := snd w\<rparr>)
                 | None \<Rightarrow>
                     (None, s1\<lparr>db := snd w,
                               throttles :=
                                 (if delay_ms cfg > 0 \<and> batch_end < length wards
                                  then throttles s1 @ [delay_ms cfg] else throttles s1)\<rparr>)))"

fun batches :: "config \<Rightarrow> ward list \<Rightarrow> (nat \<Rightarrow> nat \<Rightarrow> response) \<Rightarrow> (json list \<Rightarrow> json list) \<Rightarrow> (nat \<Rightarrow> bool) \<Rightarrow> (nat \<Rightarrow> string) \<Rightarrow> nat list \<Rightarrow> run_state \<Rightarrow> error option \<times> run_state" where
  "batches cfg wards net order fails now [] s = (None, s)"
| "batches cfg wards net order fails now (batch_start # rest) s =
     (let r = batch_body cfg wards net order fails now batch_start s
      in case fst r of
           Some e \<Rightarrow> (Some e, snd r)
         | None \<Rightarrow> batches cfg wards net order fails now rest (snd r))"

text \<open>
  \<open>main\<close>, from the validation of the environment on. \<open>wards\<close> is what the ward source
  returned, \<open>elapsed\<close> the measured time, \<open>round1\<close> stands for \<open>round(x, 1)\<close> on floats.
  A negative batch size is refused by \<open>asyncio.Semaphore\<close>, a zero one by \<open>range\<close>.
\<close>

definition main :: "config \<Rightarrow> ward list \<Rightarrow> (nat \<Rightarrow> nat \<Rightarrow> response) \<Rightarrow> (json list \<Rightarrow> json list) \<Rightarrow> (nat \<Rightarrow> bool) \<Rightarrow> (nat \<Rightarrow> string) \<Rightarrow> rat \<Rightarrow> (rat \<Rightarrow> rat) \<Rightarrow> store \<Rightarrow> outcome \<times> run_state" where
  "main cfg wards net order fails now elapsed round1 st0 =
     (let s0 = \<lparr>all_results = [], failed_count = 0, db = st0, throttles = []\<rparr> in
      if env_missing (api_key cfg) then (Exited 1, s0)
      else if env_missing (supabase_url cfg) \<or> env_missing (supabase_key cfg) then (Exited 1, s0)
      else if wards = [] then (Exited 1, s0)
      else if batch_size cfg < 0 then (Raised ValueError, s0)
      else if batch_size cfg = 0 then (Raised ValueError, s0)
      else (let r = batches cfg wards net order fails now
                      (range_step (length wards) (nat (batch_size cfg))) s0
            in case fst r of
                 Some e \<Rightarrow> (Raised e, snd r)
               | None \<Rightarrow>
                   (Completed
                      \<lparr>total_wards = length wards,
                       successful = length (all_results (snd r)),
                       failed = failed_count (snd r),
                       elapsed_seconds = round1 elapsed,
                       wards_per_second =
                         (if elapsed > 0 then round1 (of_nat (length wards) / elapsed) else 0)\<rparr>,
                    snd r)))"

section \<open>Notions used in the statements\<close>

text \<open>
  The successive slices \<open>rows[i : i + n]\<close> that a chunk loop over
  \<open>range(0, len(rows), n)\<close> visits.
\<close>

definition chunks :: "nat \<Rightarrow> 'a list \<Rightarrow> 'a list list" where
  "chunks n rows = map (\<lambda>i. take n (drop i rows)) (range_step (length rows) n)"

text \<open>
  The number of rows in the chunks whose call succeeds, when the call for the first chunk
  is the call number \<open>base\<close> of the run.
\<close>

definition rows_of_succeeded :: "(nat \<Rightarrow> bool) \<Rightarrow> nat \<Rightarrow> 'a list list \<Rightarrow> nat" where
  "rows_of_succeeded fails base cs =
     sum_list (map (\<lambda>kc. length (snd kc)) (filter (\<lambda>kc. \<not> fails (fst kc)) (enumerate base cs)))"

text \<open>
  The calls the alert writer issues for the collected rows and the ward codes in their
  iteration order when none of them raises: the deletes first, then the inserts.
\<close>

definition alert_calls :: "json list \<Rightarrow> dict list \<Rightarrow> store_call list" where
  "alert_calls codes alert_rows = map DeleteEq codes @ map Insert (chunks 500 alert_rows)"

text \<open>The stored alerts of a ward; whether a result carries alerts; the alert rows it contributes.\<close>

definition alerts_of :: "json \<Rightarrow> dict list \<Rightarrow> dict list" where
  "alerts_of c tbl = filter (\<lambda>r. map_of r ''ward_code'' = Some c) tbl"

definition has_alerts :: "dict \<Rightarrow> bool" where
  "has_alerts w = py_truthy (dict_get w ''alerts'')"

definition contributed :: "dict \<Rightarrow> dict list" where
  "contributed w = (case record_alerts w of Inr (Some cr) \<Rightarrow> snd cr | _ \<Rightarrow> [])"

text \<open>The slice \<open>wards[batch_start:batch_end]\<close> of a batch, and the number of failed fetches.\<close>

definition batch_of :: "config \<Rightarrow> ward list \<Rightarrow> nat \<Rightarrow> ward list" where
  "batch_of cfg wards batch_start =
     take (min (batch_start + nat (batch_size cfg)) (length wards) - batch_start)
          (drop batch_start wards)"

definition failures :: "'a option list \<Rightarrow> nat" where
  "failures results = length (filter (\<lambda>r. r = None) results)"

text \<open>
  For the fields of the normalized record: \<open>absent obj k\<close> says that the object \<open>obj\<close> of
  the payload lacks the key \<open>k\<close>, and \<open>sub obj k\<close> is \<open>obj.get(k, {})\<close>, the way the
  normalizer reaches the nested objects. Each table lists, for an output key, the path of
  nested objects and the key the value is read from.
\<close>

definition absent :: "json \<Rightarrow> string \<Rightarrow> bool" where
  "absent obj k = (case obj of JObj kvs \<Rightarrow> map_of kvs k = None | _ \<Rightarrow> False)"

definition sub :: "json \<Rightarrow> string \<Rightarrow> json" where
  "sub obj k = (case py_get obj k (JObj []) of Inr v \<Rightarrow> v | Inl e \<Rightarrow> JNull)"

definition record_fields :: "(string \<times> string list \<times> string) list" where
  "record_fields =
     [(''temperature_c'', [''current''], ''temp_c''),
      (''condition_text'', [''current'', ''condition''], ''text''),
      (''condition_icon'', [''current'', ''condition''], ''icon''),
      (''wind_kph'', [''current''], ''wind_kph''),
      (''humidity'', [''current''], ''humidity''),
      (''precip_mm'', [''current''], ''precip_mm'')]"

definition day_fields :: "(string \<times> string list \<times> string) list" where
  "day_fields =
     [(''date'', [], ''date''),
      (''maxtemp_c'', [''day''], ''maxtemp_c''),
      (''mintemp_c'', [''day''], ''mintemp_c''),
      (''avgtemp_c'', [''day''], ''avgtemp_c''),
      (''maxwind_kph'', [''day''], ''maxwind_kph''),
      (''totalprecip_mm'', [''day''], ''totalprecip_mm''),
      (''avghumidity'', [''day''], ''avghumidity''),
      (''condition_text'', [''day'', ''condition''], ''text''),
      (''condition_icon'', [''day'', ''condition''], ''icon''),
      (''daily_chance_of_rain'', [''day''], ''daily_chance_of_rain''),
      (''daily_chance_of_snow'', [''day''], ''daily_chance_of_snow''),
      (''uv'', [''day''], ''uv''),
      (''sunrise'', [''astro''], ''sunrise''),
      (''sunset'', [''astro''], ''sunset'')]"

definition alert_fields :: "(string \<times> string list \<times> string) list" where
  "alert_fields =
     [(''event'', [], ''event''),
      (''headline'', [], ''headline''),
      (''description'', [], ''desc''),
      (''severity'', [], ''severity''),
      (''urgency'', [], ''urgency''),
      (''areas'', [], ''areas''),
      (''category'', [], ''category''),
      (''certainty'', [], ''certainty''),
      (''instruction'', [], ''instruction''),
      (''effective'', [], ''effective''),
      (''expires'', [], ''expires'')]"


text \<open>Every field of the table that the source object lacks is \<open>None\<close> in the output.\<close>

definition nulls_for :: "(string \<times> string list \<times> string) list \<Rightarrow> json \<Rightarrow> dict \<Rightarrow> bool" where
  "nulls_for table src out =
     list_all (\<lambda>(k, path, f). absent (foldl sub src path) f \<longrightarrow> map_of out k = Some JNull) table"

text \<open>A field of the record a normalization returned, if it returned one.\<close>

definition record_field :: "error + dict \<Rightarrow> string \<Rightarrow> json option" where
  "record_field res k = (case res of Inl e \<Rightarrow> None | Inr r \<Rightarrow> map_of r k)"

section \<open>Example inputs\<close>

text \<open>
  A valid configuration with the default batch size and delay; the scenario of 120 wards
  of which the wards at positions 3 and 77 fail on every attempt while the others get an
  HTTP 200 with an empty JSON object; the record the normalizer makes of such a payload.
\<close>

definition ex_config :: config where
  "ex_config = \<lparr>batch_size = 50, delay_ms = 200, api_key = Some ''key'',
                 supabase_url = Some ''https://db.example'', supabase_key = Some ''secret''\<rparr>"

definition ex_wards :: "ward list" where
  "ex_wards = map (\<lambda>i. \<lparr>ward_code = replicate (Suc i) CHR ''w'', latitude = 0, longitude = 0\<rparr>) [0..<120]"

definition ex_net :: "nat \<Rightarrow> nat \<Rightarrow> response" where
  "ex_net i attempt = (if i = 3 \<or> i = 77 then ClientError else Response 200 (Json (JObj [])))"

definition empty_record :: "string \<Rightarrow> dict" where
  "empty_record wc =
     [(''ward_code'', JStr wc), (''temperature_c'', JNull),
      (''condition_text'', JNull), (''condition_icon'', JNull),
      (''wind_kph'', JNull), (''humidity'', JNull),
      (''is_day'', JBool False), (''precip_mm'', JNull),
      (''forecast_days'', JList []), (''alerts'', JList []),
      (''alerts_summary'', JNull), (''raw'', JObj [])]"


text \<open>Two wards, the first of which fails on every attempt.\<close>

definition ex_two_wards :: "ward list" where
  "ex_two_wards =
     [\<lparr>ward_code = ''W1'', latitude = -26, longitude = 28\<rparr>,
      \<lparr>ward_code = ''W2'', latitude = -27, longitude = 29\<rparr>]"

definition ex_net2 :: "nat \<Rightarrow> nat \<Rightarrow> response" where
  "ex_net2 i attempt = (if i = 0 then ClientError else Response 200 (Json (JObj [])))"


text \<open>A payload with some current conditions, and its normalized record for ward \<open>W1\<close>.\<close>

definition ex_payload :: json where
  "ex_payload =
     JObj [(''current'',
            JObj [(''temp_c'', JFloat (43 / 2)), (''is_day'', JInt 1),
                  (''condition'', JObj [(''text'', JStr ''Sunny'')])])]"

definition ex_normalized :: dict where
  "ex_normalized =
     [(''ward_code'', JStr ''W1''), (''temperature_c'', JFloat (43 / 2)),
      (''condition_text'', JStr ''Sunny''), (''condition_icon'', JNull),
      (''wind_kph'', JNull), (''humidity'', JNull),
      (''is_day'', JBool True), (''precip_mm'', JNull),
      (''forecast_days'', JList []), (''alerts'', JList []),
      (''alerts_summary'', JNull), (''raw'', ex_payload)]"


text \<open>
  A batch for the alert writer (wards \<open>A\<close> and \<open>B\<close> with one alert each, ward \<open>C\<close> with
  none), the alert row of a ward for an event, and a store holding an old alert of each
  ward.
\<close>

definition ex_results :: "dict list" where
  "ex_results =
     [[(''ward_code'', JStr ''A''), (''alerts'', JList [JObj [(''event'', JStr ''Flood'')]])],
      [(''ward_code'', JStr ''B''), (''alerts'', JList [JObj [(''event'', JStr ''Storm'')]])],
      [(''ward_code'', JStr ''C''), (''alerts'', JList [])]]"

definition ex_alert_row :: "string \<Rightarrow> string \<Rightarrow> dict" where
  "ex_alert_row wc event =
     [(''ward_code'', JStr wc), (''event'', JStr event), (''headline'', JNull),
      (''description'', JNull), (''severity'', JNull), (''urgency'', JNull),
      (''areas'', JNull), (''category'', JNull), (''certainty'', JNull),
      (''instruction'', JNull), (''effective'', JNull), (''expires'', JNull)]"

definition ex_alert_store :: store where
  "ex_alert_store =
     \<lparr>weather_cache = [],
      weather_alerts = [ex_alert_row ''A'' ''Old'', ex_alert_row ''B'' ''Old'',
                        ex_alert_row ''C'' ''Old''],
      calls = []\<rparr>"

text \<open>
  Three networks that answer the first two attempts with HTTP 429 and the third with
  HTTP 200: with an empty JSON object, with a body whose content type \<open>resp.json()\<close>
  refuses, and with a JSON list.
\<close>

definition ex_net_object :: "nat \<Rightarrow> response" where
  "ex_net_object attempt =
     (if attempt < 2 then Response 429 (Json JNull) else Response 200 (Json (JObj [])))"

definition ex_net_html :: "nat \<Rightarrow> response" where
  "ex_net_html attempt =
     (if attempt < 2 then Response 429 (Json JNull) else Response 200 WrongContentType)"

definition ex_net_list :: "nat \<Rightarrow> response" where
  "ex_net_list attempt =
     (if attempt < 2 then Response 429 (Json JNull) else Response 200 (Json (JList [])))"

text \<open>A result that has the coordinates the weather writer reads, and the row built from it.\<close>

definition ex_result :: dict where
  "ex_result =
     [(''ward_code'', JStr ''W1''), (''latitude'', JFloat (-26)), (''longitude'', JFloat 28),
      (''temperature_c'', JNull), (''condition_text'', JNull), (''condition_icon'', JNull),
      (''wind_kph'', JNull), (''humidity'', JNull), (''is_day'', JBool False),
      (''precip_mm'', JNull), (''forecast_days'', JList []), (''alerts_summary'', JNull),
      (''raw'', JObj [])]"

definition ex_row :: "string \<Rightarrow> dict" where
  "ex_row now =
     [(''ward_code'', JStr ''W1''), (''latitude'', JFloat (-26)), (''longitude'', JFloat 28),
      (''temperature_c'', JNull), (''condition_text'', JNull), (''condition_icon'', JNull),
      (''wind_kph'', JNull), (''humidity'', JNull), (''is_day'', JBool False),
      (''precip_mm'', JNull), (''daily_forecast'', JList []), (''alerts_summary'', JNull),
      (''raw_response'', JObj []), (''fetched_at'', JStr now), (''updated_at'', JStr now)]"


section \<open>Basic facts about the embedding\<close>

lemma ebind_Inl [simp]: "ebind (Inl e) f = Inl e"
  by (simp add: ebind_def)

lemma ebind_Inr [simp]: "ebind (Inr x) f = f x"
  by (simp add: ebind_def)

lemma ebind_eq_Inr: "ebind m f = Inr y \<longleftrightarrow> (\<exists>x. m = Inr x \<and> f x = Inr y)"
  by (cases m) simp_all

lemma dict_literal_Nil [simp]: "dict_literal [] = Inr []"
  by (simp add: dict_literal_def)

lemma dict_literal_Cons [simp]:
  "dict_literal ((k, m) # items) =
     ebind m (\<lambda>v. ebind (dict_literal items) (\<lambda>d. Inr ((k, v) # d)))"
  by (cases m) (simp_all add: dict_literal_def)

lemma dict_literal_keys: "dict_literal items = Inr d \<Longrightarrow> map fst d = map fst items"
proof (induction items arbitrary: d)
  case Nil
  then show ?case by simp
next
  case (Cons item items)
  obtain k m where item: "item = (k, m)" by (cases item)
  from Cons.prems obtain v d' where "m = Inr v" "dict_literal items = Inr d'" "d = (k, v) # d'"
    unfolding item by (auto simp: ebind_eq_Inr)
  with Cons.IH[of d'] show ?case by (simp add: item)
qed

lemma map_of_absent: "k \<notin> set (map fst r) \<Longrightarrow> map_of r k = None"
  by (simp add: map_of_eq_None_iff)

lemma mapM_first_error: "f x = Inl e \<Longrightarrow> mapM f (x # xs) = Inl e"
  by simp

section \<open>The normalized record\<close>

lemma parse_response_keys:
  assumes "parse_response data wc = Inr r"
  shows "map fst r = [''ward_code'', ''temperature_c'', ''condition_text'', ''condition_icon'',
                      ''wind_kph'', ''humidity'', ''is_day'', ''precip_mm'', ''forecast_days'',
                      ''alerts'', ''alerts_summary'', ''raw'']"
  using assms unfolding parse_response_def
  by (auto simp only: ebind_eq_Inr dest!: dict_literal_keys) simp

lemma parse_response_ward_code:
  assumes "parse_response data wc = Inr r"
  shows "map_of r ''ward_code'' = Some (JStr wc)"
  using assms unfolding parse_response_def
  by (auto simp: ebind_eq_Inr)

lemma parse_response_no_coordinates:
  assumes "parse_response data wc = Inr r"
  shows "map_of r ''latitude'' = None" and "map_of r ''longitude'' = None"
proof -
  note keys = parse_response_keys[OF assms]
  have "''latitude'' \<notin> set (map fst r)" unfolding keys by simp
  then show "map_of r ''latitude'' = None" by (rule map_of_absent)
  have "''longitude'' \<notin> set (map fst r)" unfolding keys by simp
  then show "map_of r ''longitude'' = None" by (rule map_of_absent)
qed

lemma parse_response_empty_payload:
  "parse_response (JObj []) ''W1'' =
     Inr [(''ward_code'', JStr ''W1''), (''temperature_c'', JNull),
          (''condition_text'', JNull), (''condition_icon'', JNull),
          (''wind_kph'', JNull), (''humidity'', JNull),
          (''is_day'', JBool False), (''precip_mm'', JNull),
          (''forecast_days'', JList []), (''alerts'', JList []),
          (''alerts_summary'', JNull), (''raw'', JObj [])]"
  by (simp add: parse_response_def py_eq_def)

lemma parse_response_empty: "parse_response (JObj []) wc = Inr (empty_record wc)"
  by (simp add: parse_response_def py_eq_def empty_record_def)

lemma ex_parse: "parse_response ex_payload ''W1'' = Inr ex_normalized"
  by (simp add: parse_response_def ex_payload_def ex_normalized_def py_eq_def)

lemma weather_row_KeyError:
  assumes "map_of w ''ward_code'' = Some c" and "map_of w ''latitude'' = None"
  shows "weather_row now w = Inl (KeyError ''latitude'')"
  using assms by (simp add: weather_row_def py_getitem_def)

lemma upsert_weather_batch_normalized:
  assumes "parse_response data wc = Inr w"
  shows "upsert_weather_batch now fails (w # rest) st = (Inl (KeyError ''latitude''), st)"
proof -
  have "weather_row now w = Inl (KeyError ''latitude'')"
    using parse_response_ward_code[OF assms] parse_response_no_coordinates(1)[OF assms]
    by (rule weather_row_KeyError)
  then have "mapM (weather_row now) (w # rest) = Inl (KeyError ''latitude'')"
    by (rule mapM_first_error)
  then show ?thesis
    by (simp add: upsert_weather_batch_def)
qed

section \<open>Retry policy of the Provider Client\<close>

text \<open>
  C2, as amended. When the first two requests of a ward are answered with HTTP 429 and the
  third with HTTP 200, the fetch issues exactly three requests and sleeps 2 seconds before
  the second and 4 seconds before the third. It returns the normalized record when the
  body of the third response is JSON that the normalizer accepts; when \<open>resp.json()\<close>
  refuses the body for its content type, which the \<open>except\<close> clause handles as a
  transport failure on the last attempt, it returns the failure signal \<open>None\<close>.
\<close>

theorem fetch_two_429_then_200:
  assumes "net 0 = Response 429 b0" and "net 1 = Response 429 b1"
      and "net 2 = Response 200 b2"
  shows "fst (fetch_ward_weather net wc) = [Request, Sleep 2, Request, Sleep 4, Request]
       \<and> length (filter (\<lambda>e. e = Request) (fst (fetch_ward_weather net wc))) = 3
       \<and> (\<forall>data r. b2 = Json data \<and> parse_response data wc = Inr r \<longrightarrow>
             snd (fetch_ward_weather net wc) = Inr (Some r))
       \<and> (b2 = WrongContentType \<longrightarrow> snd (fetch_ward_weather net wc) = Inr None)"
  using assms
  by (cases b2) (auto simp: fetch_ward_weather_def retry_after_def)

theorem fetch_two_429_then_200_witness:
  "ex_net_object 0 = Response 429 (Json JNull)
   \<and> ex_net_object 1 = Response 429 (Json JNull)
   \<and> ex_net_object 2 = Response 200 (Json (JObj []))
   \<and> parse_response (JObj []) ''W1'' = Inr (empty_record ''W1'')
   \<and> fst (fetch_ward_weather ex_net_object ''W1'') = [Request, Sleep 2, Request, Sleep 4, Request]
   \<and> snd (fetch_ward_weather ex_net_object ''W1'') = Inr (Some (empty_record ''W1''))"
proof -
  have n: "ex_net_object 0 = Response 429 (Json JNull)"
          "ex_net_object 1 = Response 429 (Json JNull)"
          "ex_net_object 2 = Response 200 (Json (JObj []))"
    by (simp_all add: ex_net_object_def)
  from fetch_two_429_then_200[OF n, of "''W1''"] n parse_response_empty[of "''W1''"]
  show ?thesis by simp
qed

text \<open>
  The claim C2 as stated fails on the result: after two HTTP 429 a third response with
  HTTP 200 does not always give a success. With a body that \<open>resp.json()\<close> refuses for its
  content type the fetch returns \<open>None\<close>, and with a JSON list as body the normalizer
  raises.
\<close>

theorem third_200_without_success:
  "ex_net_html 0 = Response 429 (Json JNull)
   \<and> ex_net_html 1 = Response 429 (Json JNull)
   \<and> ex_net_html 2 = Response 200 WrongContentType
   \<and> snd (fetch_ward_weather ex_net_html ''W1'') = Inr None
   \<and> ex_net_list 0 = Response 429 (Json JNull)
   \<and> ex_net_list 1 = Response 429 (Json JNull)
   \<and> ex_net_list 2 = Response 200 (Json (JList []))
   \<and> snd (fetch_ward_weather ex_net_list ''W1'') = Inl AttributeError"
  by (simp add: ex_net_html_def ex_net_list_def fetch_ward_weather_def retry_after_def
      parse_response_def)

lemma fetch_all_transport_errors:
  assumes "net 0 = ClientError" and "net 1 = ClientError" and "net 2 = ClientError"
  shows "fetch_ward_weather net wc = ([Request, Sleep 2, Request, Sleep 4, Request], Inr None)"
  using assms by (simp add: fetch_ward_weather_def retry_after_def)

section \<open>The weather writer on normalized records\<close>

text \<open>
  C10. A record produced by the normalizer has neither the key \<open>latitude\<close> nor the key
  \<open>longitude\<close>, and the weather writer reads both from every record while it builds the
  rows, before the first call to the store and outside the handler of the chunk loop. So
  for every non-empty list of normalizer-produced records the weather writer raises
  \<open>KeyError\<close> and leaves the store, with its log of calls, as it was.
\<close>

theorem normalized_records_raise_KeyError:
  assumes "ws \<noteq> []"
      and "\<forall>w\<in>set ws. \<exists>data wc. parse_response data wc = Inr w"
  shows "(\<forall>w\<in>set ws. map_of w ''latitude'' = None \<and> map_of w ''longitude'' = None)
         \<and> upsert_weather_batch now fails ws st = (Inl (KeyError ''latitude''), st)"
proof
  show "\<forall>w\<in>set ws. map_of w ''latitude'' = None \<and> map_of w ''longitude'' = None"
    using assms(2) parse_response_no_coordinates by blast
next
  from assms(1) obtain w rest where ws: "ws = w # rest" by (cases ws) auto
  with assms(2) obtain data wc where p: "parse_response data wc = Inr w" by auto
  show "upsert_weather_batch now fails ws st = (Inl (KeyError ''latitude''), st)"
    unfolding ws using p by (rule upsert_weather_batch_normalized)
qed

theorem normalized_records_raise_KeyError_witness:
  "parse_response (JObj []) ''W1'' =
     Inr [(''ward_code'', JStr ''W1''), (''temperature_c'', JNull),
          (''condition_text'', JNull), (''condition_icon'', JNull),
          (''wind_kph'', JNull), (''humidity'', JNull),
          (''is_day'', JBool False), (''precip_mm'', JNull),
          (''forecast_days'', JList []), (''alerts'', JList []),
          (''alerts_summary'', JNull), (''raw'', JObj [])]
   \<and> upsert_weather_batch ''2026-01-01T00:00:00+00:00'' (\<lambda>n. False)
        [[(''ward_code'', JStr ''W1''), (''temperature_c'', JNull),
          (''condition_text'', JNull), (''condition_icon'', JNull),
          (''wind_kph'', JNull), (''humidity'', JNull),
          (''is_day'', JBool False), (''precip_mm'', JNull),
          (''forecast_days'', JList []), (''alerts'', JList []),
          (''alerts_summary'', JNull), (''raw'', JObj [])]]
        \<lparr>weather_cache = [], weather_alerts = [], calls = []\<rparr>
     = (Inl (KeyError ''latitude''), \<lparr>weather_cache = [], weather_alerts = [], calls = []\<rparr>)"
proof -
  let ?r = "[(''ward_code'', JStr ''W1''), (''temperature_c'', JNull),
          (''condition_text'', JNull), (''condition_icon'', JNull),
          (''wind_kph'', JNull), (''humidity'', JNull),
          (''is_day'', JBool False), (''precip_mm'', JNull),
          (''forecast_days'', JList []), (''alerts'', JList []),
          (''alerts_summary'', JNull), (''raw'', JObj [])]"
  have ne: "[?r] \<noteq> []" by simp
  have nz: "\<forall>w\<in>set [?r]. \<exists>data wc. parse_response data wc = Inr w"
    using parse_response_empty_payload by auto
  from normalized_records_raise_KeyError[OF ne nz] parse_response_empty_payload
  show ?thesis by blast
qed

lemma mapM_length: "mapM f xs = Inr ys \<Longrightarrow> length ys = length xs"
  by (induction xs arbitrary: ys) (auto simp: ebind_eq_Inr)

lemma mapM_all: "mapM f xs = Inr ys \<Longrightarrow> y \<in> set ys \<Longrightarrow> \<exists>x\<in>set xs. f x = Inr y"
  by (induction xs arbitrary: ys) (auto simp: ebind_eq_Inr)

lemma mapM_nth: "mapM f xs = Inr ys \<Longrightarrow> j < length xs \<Longrightarrow> f (xs ! j) = Inr (ys ! j)"
proof (induction xs arbitrary: ys j)
  case Nil
  then show ?case by simp
next
  case (Cons x xs)
  then show ?case by (cases j) (auto simp: ebind_eq_Inr)
qed

lemma mapM_replicate: "f x = Inr y \<Longrightarrow> mapM f (replicate n x) = Inr (replicate n y)"
  by (induction n) simp_all

lemma mapM_map: "(\<And>x. x \<in> set xs \<Longrightarrow> f x = Inr (h x)) \<Longrightarrow> mapM f xs = Inr (map h xs)"
  by (induction xs) simp_all

lemma mapM_list_all2: "mapM f xs = Inr ys \<Longrightarrow> list_all2 (\<lambda>x y. f x = Inr y) xs ys"
  by (induction xs arbitrary: ys) (auto simp: ebind_eq_Inr)

lemma list_all2_objects:
  "list_all2 (\<lambda>x y. \<exists>d. y = JObj d \<and> P x d) xs ys \<Longrightarrow>
     \<exists>ds. ys = map JObj ds \<and> list_all2 P xs ds"
proof (induction xs ys rule: list_all2_induct)
  case Nil
  then show ?case by simp
next
  case (Cons x xs y ys)
  then obtain d ds where "y = JObj d" "P x d" "ys = map JObj ds" "list_all2 P xs ds" by blast
  then have "y # ys = map JObj (d # ds) \<and> list_all2 P (x # xs) (d # ds)" by simp
  then show ?case by (rule exI)
qed

lemma mapM_objects:
  assumes "mapM f xs = Inr ys" and "\<And>x y. f x = Inr y \<Longrightarrow> \<exists>d. y = JObj d \<and> P x d"
  shows "\<exists>ds. ys = map JObj ds \<and> list_all2 P xs ds"
proof -
  have "list_all2 (\<lambda>x y. \<exists>d. y = JObj d \<and> P x d) xs ys"
    using mapM_list_all2[OF assms(1)] assms(2) by (rule list_all2_mono)
  then show ?thesis by (rule list_all2_objects)
qed

lemma py_get_Inr: "py_get d k dflt = Inr v \<Longrightarrow> \<exists>kvs. d = JObj kvs"
  by (cases d) simp_all

lemma dict_literal_items:
  "dict_literal items = Inr d \<Longrightarrow> (k, m) \<in> set items \<Longrightarrow> \<exists>v. m = Inr v"
proof (induction items arbitrary: d)
  case Nil
  then show ?case by simp
next
  case (Cons item items)
  obtain k' m' where item: "item = (k', m')" by (cases item)
  from Cons.prems(1) obtain v d' where "m' = Inr v" "dict_literal items = Inr d'"
    unfolding item by (auto simp: ebind_eq_Inr)
  with Cons.IH[of d'] Cons.prems(2) show ?case by (auto simp: item)
qed

lemma dict_literal_object:
  assumes "dict_literal items = Inr d" and "(k, py_get obj f dflt) \<in> set items"
  shows "\<exists>kvs. obj = JObj kvs"
  using dict_literal_items[OF assms] py_get_Inr by blast


section \<open>Calls to the store and chunking\<close>

lemma execute_calls [simp]: "calls (snd (execute fails c st)) = calls st @ [c]"
  by (simp add: execute_def)

lemma execute_ok [simp]: "fst (execute fails c st) = (\<not> fails (length (calls st)))"
  by (simp add: execute_def)

lemma execute_success:
  assumes "\<not> fails (length (calls st))"
  shows "execute fails c st = (True, (apply_call c st)\<lparr>calls := calls st @ [c]\<rparr>)"
  using assms by (simp add: execute_def)

lemma execute_failure:
  assumes "fails (length (calls st))"
  shows "execute fails c st = (False, st\<lparr>calls := calls st @ [c]\<rparr>)"
  using assms by (simp add: execute_def)

lemma concat_slices:
  "concat (map (\<lambda>k. take n (drop (k * n) xs)) [0..<m]) = take (m * n) xs"
proof (induction m)
  case 0
  then show ?case by simp
next
  case (Suc m)
  have "take (m * n + n) xs = take (m * n) xs @ take n (drop (m * n) xs)"
    by (simp add: take_add)
  with Suc show ?case by (simp add: add.commute)
qed

lemma ceil_mult_ge:
  assumes "0 < n"
  shows "(l::nat) \<le> ((l + n - 1) div n) * n"
proof -
  have "(l + n - 1) div n * n + (l + n - 1) mod n = l + n - 1"
    by (rule div_mult_mod_eq)
  moreover have "(l + n - 1) mod n < n"
    using assms by simp
  ultimately show ?thesis by linarith
qed

lemma ceil_pred_lt:
  assumes "0 < n" and "k < ((l::nat) + n - 1) div n"
  shows "k * n < l"
proof -
  from assms(2) have "Suc k * n \<le> ((l + n - 1) div n) * n"
    by (intro mult_le_mono1) simp
  also have "\<dots> \<le> l + n - 1"
    by (rule div_times_less_eq_dividend)
  finally show ?thesis using assms(1) by simp
qed

lemma chunks_slices:
  "chunks n rows = map (\<lambda>k. take n (drop (k * n) rows)) [0..<(length rows + n - 1) div n]"
  by (simp add: chunks_def range_step_def comp_def)

lemma chunks_Nil [simp]: "chunks n [] = []"
  by (cases "n = 0") (simp_all add: chunks_def range_step_def)

lemma concat_chunks:
  assumes "0 < n"
  shows "concat (chunks n rows) = rows"
  unfolding chunks_slices concat_slices
  using ceil_mult_ge[OF assms, of "length rows"] by simp

lemma chunk_bounds:
  assumes "0 < n" and "c \<in> set (chunks n rows)"
  shows "c \<noteq> [] \<and> length c \<le> n"
proof -
  from assms(2) obtain k where k: "k < (length rows + n - 1) div n"
    and c: "c = take n (drop (k * n) rows)"
    unfolding chunks_slices by auto
  from ceil_pred_lt[OF assms(1) k] have "k * n < length rows" .
  with assms(1) show ?thesis by (simp add: c)
qed


lemma range_step_Cons:
  assumes "0 < stop" and "0 < step"
  shows "\<exists>rest. range_step stop step = 0 # rest"
proof -
  have "0 < (stop + step - 1) div step"
    using assms by (simp add: div_greater_zero_iff)
  then have "[0..<(stop + step - 1) div step] = 0 # [1..<(stop + step - 1) div step]"
    by (simp add: upt_conv_Cons)
  then show ?thesis by (simp add: range_step_def)
qed

section \<open>The chunk loop of the weather writer\<close>

lemma upsert_chunks_alerts [simp]:
  "weather_alerts (snd (upsert_chunks fails rows n starts upserted st)) = weather_alerts st"
proof (induction starts arbitrary: upserted st)
  case Nil
  then show ?case by simp
next
  case (Cons i starts)
  show ?case
    by (simp add: Let_def Cons.IH) (cases "fails (length (calls st))"; simp add: execute_def)
qed

lemma upsert_chunks_result:
  "fst (upsert_chunks fails rows n starts upserted st) =
     upserted + rows_of_succeeded fails (length (calls st)) (map (\<lambda>i. take n (drop i rows)) starts)"
proof (induction starts arbitrary: upserted st)
  case Nil
  then show ?case by (simp add: rows_of_succeeded_def)
next
  case (Cons i starts)
  show ?case
    by (simp add: Let_def Cons.IH rows_of_succeeded_def)
qed

lemma upsert_chunks_calls:
  "calls (snd (upsert_chunks fails rows n starts upserted st)) =
     calls st @ map (\<lambda>i. Upsert (take n (drop i rows))) starts"
proof (induction starts arbitrary: upserted st)
  case Nil
  then show ?case by simp
next
  case (Cons i starts)
  show ?case
    by (simp add: Let_def Cons.IH)
qed


text \<open>
  C8. For every list of results from which the rows can be built, the weather writer
  cuts the rows into consecutive chunks of at least one and at most 500 rows and issues
  one upsert call per chunk, whether or not earlier calls raised; it returns the number
  of rows in the chunks whose call did not raise.
\<close>

theorem weather_writer_chunks:
  assumes "mapM (weather_row now) ws = Inr rows"
  shows "concat (chunks 500 rows) = rows
       \<and> (\<forall>c\<in>set (chunks 500 rows). c \<noteq> [] \<and> length c \<le> 500)
       \<and> calls (snd (upsert_weather_batch now fails ws st))
           = calls st @ map Upsert (chunks 500 rows)
       \<and> fst (upsert_weather_batch now fails ws st)
           = Inr (rows_of_succeeded fails (length (calls st)) (chunks 500 rows))"
proof (intro conjI)
  show "concat (chunks 500 rows) = rows"
    by (rule concat_chunks) simp
  show "\<forall>c\<in>set (chunks 500 rows). c \<noteq> [] \<and> length c \<le> 500"
  proof
    fix c assume "c \<in> set (chunks 500 rows)"
    with chunk_bounds[of 500 c rows] show "c \<noteq> [] \<and> length c \<le> 500" by simp
  qed
  show "calls (snd (upsert_weather_batch now fails ws st)) = calls st @ map Upsert (chunks 500 rows)"
    using assms
    by (simp add: upsert_weather_batch_def Let_def upsert_chunks_calls chunks_def range_step_def comp_def)
  show "fst (upsert_weather_batch now fails ws st)
           = Inr (rows_of_succeeded fails (length (calls st)) (chunks 500 rows))"
    using assms
    by (simp add: upsert_weather_batch_def Let_def upsert_chunks_result chunks_def range_step_def
        rows_of_succeeded_def)
qed

theorem weather_writer_chunks_witness:
  "mapM (weather_row ''2026-01-01T00:00:00+00:00'') (replicate 501 ex_result)
     = Inr (replicate 501 (ex_row ''2026-01-01T00:00:00+00:00''))
   \<and> chunks 500 (replicate 501 (ex_row ''2026-01-01T00:00:00+00:00''))
     = [replicate 500 (ex_row ''2026-01-01T00:00:00+00:00''), [ex_row ''2026-01-01T00:00:00+00:00'']]
   \<and> calls (snd (upsert_weather_batch ''2026-01-01T00:00:00+00:00'' (\<lambda>k. k = 0)
                     (replicate 501 ex_result) ex_alert_store))
     = [Upsert (replicate 500 (ex_row ''2026-01-01T00:00:00+00:00'')),
        Upsert [ex_row ''2026-01-01T00:00:00+00:00'']]
   \<and> fst (upsert_weather_batch ''2026-01-01T00:00:00+00:00'' (\<lambda>k. k = 0)
             (replicate 501 ex_result) ex_alert_store) = Inr 1"
proof -
  let ?now = "''2026-01-01T00:00:00+00:00''"
  have row: "weather_row ?now ex_result = Inr (ex_row ?now)"
    by (simp add: weather_row_def py_getitem_def ex_result_def ex_row_def)
  have rows: "mapM (weather_row ?now) (replicate 501 ex_result) = Inr (replicate 501 (ex_row ?now))"
    using row by (rule mapM_replicate)
  have "range_step 501 500 = [0, 500]"
    by (simp add: range_step_def upt_conv_Cons)
  then have cs: "chunks 500 (replicate 501 (ex_row ?now)) = [replicate 500 (ex_row ?now), [ex_row ?now]]"
    by (simp add: chunks_def)
  from weather_writer_chunks[OF rows, of "\<lambda>k. k = 0" ex_alert_store] rows cs
  show ?thesis
    by (simp add: rows_of_succeeded_def ex_alert_store_def)
qed

section \<open>The alert writer\<close>

lemma py_eq_str [simp]: "py_eq y (JStr c) \<longleftrightarrow> y = JStr c"
  by (cases y) (simp_all add: py_eq_def)

lemma py_iter_truthy: "py_truthy v \<Longrightarrow> py_iter v = Inr xs \<Longrightarrow> xs \<noteq> []"
  by (cases v) auto

lemma alert_row_ward_code: "alert_row c a = Inr r \<Longrightarrow> map_of r ''ward_code'' = Some c"
  by (auto simp: alert_row_def ebind_eq_Inr)

lemma record_alerts_None: "record_alerts w = Inr None \<longleftrightarrow> \<not> has_alerts w"
  by (auto simp: record_alerts_def has_alerts_def ebind_eq_Inr split: if_splits)

lemma record_alerts_Some:
  assumes "record_alerts w = Inr (Some (c, new))"
  shows "has_alerts w" and "map_of w ''ward_code'' = Some c" and "new \<noteq> []"
    and "\<forall>r\<in>set new. map_of r ''ward_code'' = Some c"
proof -
  from assms show t: "has_alerts w"
    by (auto simp: record_alerts_def has_alerts_def split: if_splits)
  from assms t obtain alerts items where c: "py_getitem w ''ward_code'' = Inr c"
    and a: "py_getitem w ''alerts'' = Inr alerts" and i: "py_iter alerts = Inr items"
    and m: "mapM (alert_row c) items = Inr new"
    by (auto simp: record_alerts_def has_alerts_def ebind_eq_Inr split: if_splits)
  from c show "map_of w ''ward_code'' = Some c"
    by (auto simp: py_getitem_def split: option.splits)
  from a t have "py_truthy alerts"
    by (auto simp: py_getitem_def dict_get_def has_alerts_def split: option.splits)
  then have "items \<noteq> []" using i by (rule py_iter_truthy)
  with mapM_length[OF m] show "new \<noteq> []" by auto
  show "\<forall>r\<in>set new. map_of r ''ward_code'' = Some c"
    using mapM_all[OF m] alert_row_ward_code by blast
qed

lemma set_add_subset: "set s \<subseteq> set (set_add s x)" "set (set_add s x) \<subseteq> insert x (set s)"
  by (auto simp: set_add_def)

lemma set_add_str [simp]: "set (set_add s (JStr c)) = insert (JStr c) (set s)"
  by (auto simp: set_add_def list_ex_iff)

lemma contributed_cases:
  obtains "contributed w = []"
  | c new where "record_alerts w = Inr (Some (c, new))" and "contributed w = new"
proof (cases "record_alerts w")
  case (Inl e)
  then have "contributed w = []" by (simp add: contributed_def)
  then show ?thesis by (rule that(1))
next
  case (Inr x)
  show ?thesis
  proof (cases x)
    case None
    with Inr have "contributed w = []" by (simp add: contributed_def)
    then show ?thesis by (rule that(1))
  next
    case (Some cr)
    obtain c new where "cr = (c, new)" by (cases cr)
    with Inr Some have "record_alerts w = Inr (Some (c, new))" "contributed w = new"
      by (simp_all add: contributed_def)
    then show ?thesis by (rule that(2))
  qed
qed

lemma contributed_rows:
  assumes "r \<in> set (contributed w)"
  shows "has_alerts w \<and> map_of r ''ward_code'' = map_of w ''ward_code''"
proof -
  from assms obtain c new where ra: "record_alerts w = Inr (Some (c, new))" and r: "r \<in> set new"
    by (cases w rule: contributed_cases) auto
  from record_alerts_Some[OF ra] r show ?thesis by simp
qed

lemma collect_alerts_rows:
  "collect_alerts ws rows0 codes0 = Inr (rows, codes) \<Longrightarrow>
     rows = rows0 @ concat (map contributed ws)"
proof (induction ws arbitrary: rows0 codes0)
  case Nil
  then show ?case by simp
next
  case (Cons w ws)
  show ?case
  proof (cases "record_alerts w")
    case (Inl e)
    with Cons.prems show ?thesis by simp
  next
    case (Inr x)
    show ?thesis
    proof (cases x)
      case None
      with Inr Cons.prems Cons.IH[of rows0 codes0] show ?thesis
        by (simp add: contributed_def)
    next
      case (Some cr)
      obtain c' new where cr: "cr = (c', new)" by (cases cr)
      from Inr Some cr Cons.prems
      have "collect_alerts ws (rows0 @ new) (set_add codes0 c') = Inr (rows, codes)" by simp
      from Cons.IH[OF this] Inr Some cr show ?thesis
        by (simp add: contributed_def)
    qed
  qed
qed

lemma collect_alerts_ok:
  "collect_alerts ws rows0 codes0 = Inr (rows, codes) \<Longrightarrow> w \<in> set ws \<Longrightarrow>
     \<exists>x. record_alerts w = Inr x"
  by (induction ws arbitrary: rows0 codes0) (auto split: sum.splits option.splits)

lemma collect_alerts_codes_sub:
  "collect_alerts ws rows0 codes0 = Inr (rows, codes) \<Longrightarrow> c \<in> set codes \<Longrightarrow>
     c \<in> set codes0 \<or> (\<exists>w\<in>set ws. \<exists>new. record_alerts w = Inr (Some (c, new)))"
proof (induction ws arbitrary: rows0 codes0)
  case Nil
  then show ?case by simp
next
  case (Cons w ws)
  show ?case
  proof (cases "record_alerts w")
    case (Inl e)
    with Cons.prems show ?thesis by simp
  next
    case (Inr x)
    show ?thesis
    proof (cases x)
      case None
      with Inr Cons.prems Cons.IH[of rows0 codes0] show ?thesis by auto
    next
      case (Some cr)
      obtain c' new where cr: "cr = (c', new)" by (cases cr)
      from Inr Some cr Cons.prems
      have "collect_alerts ws (rows0 @ new) (set_add codes0 c') = Inr (rows, codes)" by simp
      from Cons.IH[OF this Cons.prems(2)] set_add_subset(2)[of codes0 c'] Inr Some cr
      show ?thesis by auto
    qed
  qed
qed

lemma collect_alerts_codes_mono:
  "collect_alerts ws rows0 codes0 = Inr (rows, codes) \<Longrightarrow> set codes0 \<subseteq> set codes"
proof (induction ws arbitrary: rows0 codes0)
  case Nil
  then show ?case by simp
next
  case (Cons w ws)
  show ?case
  proof (cases "record_alerts w")
    case (Inl e)
    with Cons.prems show ?thesis by simp
  next
    case (Inr x)
    show ?thesis
    proof (cases x)
      case None
      with Inr Cons.prems Cons.IH[of rows0 codes0] show ?thesis by auto
    next
      case (Some cr)
      obtain c' new where cr: "cr = (c', new)" by (cases cr)
      from Inr Some cr Cons.prems
      have "collect_alerts ws (rows0 @ new) (set_add codes0 c') = Inr (rows, codes)" by simp
      from Cons.IH[OF this] set_add_subset(1)[of codes0 c'] show ?thesis by auto
    qed
  qed
qed

lemma collect_alerts_codes_str:
  "collect_alerts ws rows0 codes0 = Inr (rows, codes) \<Longrightarrow> w \<in> set ws \<Longrightarrow>
     record_alerts w = Inr (Some (JStr c, new)) \<Longrightarrow> JStr c \<in> set codes"
proof (induction ws arbitrary: rows0 codes0)
  case Nil
  then show ?case by simp
next
  case (Cons w' ws)
  show ?case
  proof (cases "record_alerts w'")
    case (Inl e)
    with Cons.prems show ?thesis by simp
  next
    case (Inr x)
    show ?thesis
    proof (cases x)
      case None
      with Inr Cons.prems Cons.IH[of rows0 codes0] show ?thesis by auto
    next
      case (Some cr)
      obtain c' new' where cr: "cr = (c', new')" by (cases cr)
      from Inr Some cr Cons.prems
      have step: "collect_alerts ws (rows0 @ new') (set_add codes0 c') = Inr (rows, codes)" by simp
      show ?thesis
      proof (cases "w = w'")
        case True
        with Inr Some cr Cons.prems(3) have "c' = JStr c" by simp
        with collect_alerts_codes_mono[OF step] show ?thesis by auto
      next
        case False
        with Cons.prems(2) have "w \<in> set ws" by simp
        from Cons.IH[OF step this Cons.prems(3)] show ?thesis .
      qed
    qed
  qed
qed

lemma collect_alerts_codes_rows:
  assumes "collect_alerts ws [] [] = Inr (alert_rows, codes)" and "codes \<noteq> []"
  shows "alert_rows \<noteq> []"
proof -
  from assms(2) obtain c where c: "c \<in> set codes" by (cases codes) auto
  from collect_alerts_codes_sub[OF assms(1) c] obtain w new
    where w: "w \<in> set ws" and ra: "record_alerts w = Inr (Some (c, new))" by auto
  from record_alerts_Some(3)[OF ra] ra have "contributed w \<noteq> []"
    by (simp add: contributed_def)
  with w have "concat (map contributed ws) \<noteq> []" by auto
  with collect_alerts_rows[OF assms(1)] show ?thesis by simp
qed

lemma filter_deleted:
  "filter (\<lambda>r. f r \<notin> Some ` S) (filter (\<lambda>r. f r \<noteq> Some c) xs)
     = filter (\<lambda>r. f r \<notin> Some ` insert c S) xs"
  by (induction xs) auto

lemma delete_alerts_ok:
  assumes "\<forall>i<length codes. \<not> fails (length (calls st) + i)"
  shows "fst (delete_alerts fails codes st)
       \<and> calls (snd (delete_alerts fails codes st)) = calls st @ map DeleteEq codes
       \<and> weather_alerts (snd (delete_alerts fails codes st))
           = filter (\<lambda>r. map_of r ''ward_code'' \<notin> Some ` set codes) (weather_alerts st)
       \<and> weather_cache (snd (delete_alerts fails codes st)) = weather_cache st"
  using assms
proof (induction codes arbitrary: st)
  case Nil
  show ?case by simp
next
  case (Cons c codes)
  let ?st = "(apply_call (DeleteEq c) st)\<lparr>calls := calls st @ [DeleteEq c]\<rparr>"
  from Cons.prems have ok: "\<not> fails (length (calls st))" by force
  from Cons.prems have rest: "\<forall>i<length codes. \<not> fails (length (calls ?st) + i)" by force
  have step: "delete_alerts fails (c # codes) st = delete_alerts fails codes ?st"
    by (simp add: execute_success[of fails st, OF ok])
  show ?case
    unfolding step using Cons.IH[OF rest] by (simp add: filter_deleted)
qed

lemma delete_alerts_fail:
  assumes "k < length codes" and "fails (length (calls st) + k)"
      and "\<forall>i<k. \<not> fails (length (calls st) + i)"
  shows "\<not> fst (delete_alerts fails codes st)
       \<and> calls (snd (delete_alerts fails codes st)) = calls st @ map DeleteEq (take (Suc k) codes)"
  using assms
proof (induction codes arbitrary: st k)
  case Nil
  then show ?case by simp
next
  case (Cons c codes)
  show ?case
  proof (cases k)
    case 0
    with Cons.prems have "fails (length (calls st))" by simp
    then show ?thesis
      by (simp add: execute_failure[of fails st] 0)
  next
    case (Suc k')
    let ?st = "(apply_call (DeleteEq c) st)\<lparr>calls := calls st @ [DeleteEq c]\<rparr>"
    from Cons.prems Suc have ok: "\<not> fails (length (calls st))" by force
    have step: "delete_alerts fails (c # codes) st = delete_alerts fails codes ?st"
      by (simp add: execute_success[of fails st, OF ok])
    from Cons.prems Suc have a: "k' < length codes" by simp
    from Cons.prems Suc have b: "fails (length (calls ?st) + k')" by simp
    have c: "\<forall>i<k'. \<not> fails (length (calls ?st) + i)"
    proof (intro allI impI)
      fix i assume "i < k'"
      then have "Suc i < k" using Suc by simp
      with Cons.prems(3) have "\<not> fails (length (calls st) + Suc i)" by blast
      then show "\<not> fails (length (calls ?st) + i)" by simp
    qed
    show ?thesis
      unfolding step using Cons.IH[OF a b c] by (simp add: Suc)
  qed
qed

lemma insert_chunks_ok:
  assumes "\<forall>i<length starts. \<not> fails (length (calls st) + i)"
  shows "fst (insert_chunks fails rows n starts inserted st)
           = Some (inserted + length (concat (map (\<lambda>i. take n (drop i rows)) starts)))
       \<and> calls (snd (insert_chunks fails rows n starts inserted st))
           = calls st @ map (\<lambda>i. Insert (take n (drop i rows))) starts
       \<and> weather_alerts (snd (insert_chunks fails rows n starts inserted st))
           = weather_alerts st @ concat (map (\<lambda>i. take n (drop i rows)) starts)
       \<and> weather_cache (snd (insert_chunks fails rows n starts inserted st)) = weather_cache st"
  using assms
proof (induction starts arbitrary: st inserted)
  case Nil
  show ?case by simp
next
  case (Cons j starts)
  let ?c = "Insert (take n (drop j rows))"
  let ?st = "(apply_call ?c st)\<lparr>calls := calls st @ [?c]\<rparr>"
  from Cons.prems have ok: "\<not> fails (length (calls st))" by force
  from Cons.prems have rest: "\<forall>i<length starts. \<not> fails (length (calls ?st) + i)" by force
  have step: "insert_chunks fails rows n (j # starts) inserted st
                = insert_chunks fails rows n starts (inserted + length (take n (drop j rows))) ?st"
    by (simp add: execute_success[of fails st, OF ok] Let_def)
  show ?case
    unfolding step using Cons.IH[OF rest] by simp
qed

lemma insert_chunks_fail:
  assumes "k < length starts" and "fails (length (calls st) + k)"
      and "\<forall>i<k. \<not> fails (length (calls st) + i)"
  shows "fst (insert_chunks fails rows n starts inserted st) = None
       \<and> calls (snd (insert_chunks fails rows n starts inserted st))
           = calls st @ map (\<lambda>i. Insert (take n (drop i rows))) (take (Suc k) starts)"
  using assms
proof (induction starts arbitrary: st k inserted)
  case Nil
  then show ?case by simp
next
  case (Cons j starts)
  show ?case
  proof (cases k)
    case 0
    with Cons.prems have "fails (length (calls st))" by simp
    then show ?thesis
      by (simp add: execute_failure[of fails st] 0 Let_def)
  next
    case (Suc k')
    let ?c = "Insert (take n (drop j rows))"
    let ?st = "(apply_call ?c st)\<lparr>calls := calls st @ [?c]\<rparr>"
    from Cons.prems Suc have ok: "\<not> fails (length (calls st))" by force
    have step: "insert_chunks fails rows n (j # starts) inserted st
                  = insert_chunks fails rows n starts (inserted + length (take n (drop j rows))) ?st"
      by (simp add: execute_success[of fails st, OF ok] Let_def)
    from Cons.prems Suc have a: "k' < length starts" by simp
    from Cons.prems Suc have b: "fails (length (calls ?st) + k')" by simp
    have c: "\<forall>i<k'. \<not> fails (length (calls ?st) + i)"
    proof (intro allI impI)
      fix i assume "i < k'"
      then have "Suc i < k" using Suc by simp
      with Cons.prems(3) have "\<not> fails (length (calls st) + Suc i)" by blast
      then show "\<not> fails (length (calls ?st) + i)" by simp
    qed
    show ?thesis
      unfolding step using Cons.IH[OF a b c] by (simp add: Suc)
  qed
qed

lemma order_Nil: "set (order codes) = set codes \<Longrightarrow> codes = [] \<Longrightarrow> order codes = []"
  by simp

lemma upsert_alerts_ok:
  assumes collect: "collect_alerts ws [] [] = Inr (alert_rows, codes)"
      and visits: "set (order codes) = set codes"
      and ok: "\<forall>i<length (alert_calls (order codes) alert_rows). \<not> fails (length (calls st) + i)"
  shows "fst (upsert_alerts order fails ws st) = Inr (length alert_rows)
       \<and> calls (snd (upsert_alerts order fails ws st))
           = calls st @ alert_calls (order codes) alert_rows
       \<and> weather_alerts (snd (upsert_alerts order fails ws st))
           = filter (\<lambda>r. map_of r ''ward_code'' \<notin> Some ` set codes) (weather_alerts st) @ alert_rows
       \<and> weather_cache (snd (upsert_alerts order fails ws st)) = weather_cache st"
proof (cases "alert_rows = []")
  case True
  with collect_alerts_codes_rows[OF collect] have codes: "codes = []" by blast
  with visits have "order codes = []" by (simp add: order_Nil)
  with True collect codes show ?thesis
    by (simp add: upsert_alerts_def alert_calls_def)
next
  case False
  let ?d = "delete_alerts fails (order codes) st"
  let ?starts = "range_step (length alert_rows) 500"
  have dok: "\<forall>i<length (order codes). \<not> fails (length (calls st) + i)"
    using ok by (simp add: alert_calls_def)
  note d = delete_alerts_ok[OF dok, unfolded visits]
  have iok: "\<forall>i<length ?starts. \<not> fails (length (calls (snd ?d)) + i)"
  proof (intro allI impI)
    fix i assume "i < length ?starts"
    then have "length (order codes) + i < length (alert_calls (order codes) alert_rows)"
      by (simp add: alert_calls_def chunks_def)
    with ok have "\<not> fails (length (calls st) + (length (order codes) + i))" by blast
    then show "\<not> fails (length (calls (snd ?d)) + i)"
      using d by (simp add: add.assoc)
  qed
  note i = insert_chunks_ok[OF iok, of alert_rows 500 0]
  have cc: "concat (map (\<lambda>i. take 500 (drop i alert_rows)) ?starts) = alert_rows"
    using concat_chunks[of 500 alert_rows] by (simp add: chunks_def)
  show ?thesis
    using False collect d i
    by (simp add: upsert_alerts_def Let_def alert_calls_def chunks_def cc del: length_concat)
qed


lemma ex_collect:
  "collect_alerts ex_results [] []
     = Inr ([ex_alert_row ''A'' ''Flood'', ex_alert_row ''B'' ''Storm''], [JStr ''A'', JStr ''B''])"
  by (simp add: ex_results_def record_alerts_def dict_get_def py_getitem_def alert_row_def
      set_add_def ex_alert_row_def)

lemma ex_alert_calls:
  "alert_calls [JStr ''B'', JStr ''A''] [ex_alert_row ''A'' ''Flood'', ex_alert_row ''B'' ''Storm'']
     = [DeleteEq (JStr ''B''), DeleteEq (JStr ''A''),
        Insert [ex_alert_row ''A'' ''Flood'', ex_alert_row ''B'' ''Storm'']]"
  by (simp add: alert_calls_def chunks_def range_step_def)

text \<open>
  C6. When no call to the store raises, the alert writer first deletes the stored alerts of
  every ward code collected from the results that carry alerts, in the order in which the
  set of these codes is iterated, then inserts the new alert rows in chunks of 500, and
  returns their number. Afterwards, for each result of the batch that carries alerts (with
  a string ward code, as wards have), the stored alerts of its ward are exactly the new
  rows of that ward; and for each ward none of whose results in the batch carries alerts,
  no delete is issued and the stored alerts are what they were.
\<close>

theorem alert_writer_replace:
  assumes collect: "collect_alerts ws [] [] = Inr (alert_rows, codes)"
      and visits: "set (order codes) = set codes"
      and ok: "\<forall>i<length (alert_calls (order codes) alert_rows). \<not> fails (length (calls st) + i)"
  shows "fst (upsert_alerts order fails ws st) = Inr (length alert_rows)
       \<and> calls (snd (upsert_alerts order fails ws st))
           = calls st @ map DeleteEq (order codes) @ map Insert (chunks 500 alert_rows)
       \<and> alert_rows = concat (map contributed ws)
       \<and> (\<forall>w\<in>set ws. \<forall>c. has_alerts w \<and> map_of w ''ward_code'' = Some (JStr c) \<longrightarrow>
             JStr c \<in> set (order codes)
           \<and> alerts_of (JStr c) (weather_alerts (snd (upsert_alerts order fails ws st)))
               = alerts_of (JStr c) alert_rows)
       \<and> (\<forall>v. (\<forall>w\<in>set ws. map_of w ''ward_code'' = Some v \<longrightarrow> \<not> has_alerts w) \<longrightarrow>
             v \<notin> set (order codes)
           \<and> alerts_of v (weather_alerts (snd (upsert_alerts order fails ws st)))
               = alerts_of v (weather_alerts st))"
proof -
  note u = upsert_alerts_ok[where order = order, OF collect visits ok]
  have rows: "alert_rows = concat (map contributed ws)"
    using collect_alerts_rows[OF collect] by simp
  have part1: "JStr c \<in> set codes
      \<and> alerts_of (JStr c) (weather_alerts (snd (upsert_alerts order fails ws st)))
          = alerts_of (JStr c) alert_rows"
    if w: "w \<in> set ws" and h: "has_alerts w" and c: "map_of w ''ward_code'' = Some (JStr c)" for w c
  proof -
    from collect_alerts_ok[OF collect w] obtain x where x: "record_alerts w = Inr x" by blast
    with h obtain c' new where "x = Some (c', new)"
      using record_alerts_None[of w] by (cases x) auto
    with x record_alerts_Some(2)[of w c' new] c have "record_alerts w = Inr (Some (JStr c, new))"
      by simp
    from collect_alerts_codes_str[OF collect w this] have m: "JStr c \<in> set codes" .
    then have "alerts_of (JStr c)
                 (filter (\<lambda>r. map_of r ''ward_code'' \<notin> Some ` set codes) (weather_alerts st)) = []"
      by (auto simp: alerts_of_def filter_empty_conv)
    with u m show ?thesis by (simp add: alerts_of_def)
  qed
  have part2: "v \<notin> set codes
      \<and> alerts_of v (weather_alerts (snd (upsert_alerts order fails ws st)))
          = alerts_of v (weather_alerts st)"
    if none: "\<forall>w\<in>set ws. map_of w ''ward_code'' = Some v \<longrightarrow> \<not> has_alerts w" for v
  proof -
    have nc: "v \<notin> set codes"
    proof
      assume v: "v \<in> set codes"
      from collect_alerts_codes_sub[OF collect v] obtain w new
        where "w \<in> set ws" "record_alerts w = Inr (Some (v, new))" by auto
      with record_alerts_Some(1,2)[of w v new] none show False by blast
    qed
    have "alerts_of v alert_rows = []"
    proof -
      have "map_of r ''ward_code'' \<noteq> Some v" if "r \<in> set alert_rows" for r
      proof -
        from that rows obtain w where "w \<in> set ws" "r \<in> set (contributed w)" by auto
        with contributed_rows[of r w] none show ?thesis by auto
      qed
      then show ?thesis by (auto simp: alerts_of_def filter_empty_conv)
    qed
    moreover have "alerts_of v
                 (filter (\<lambda>r. map_of r ''ward_code'' \<notin> Some ` set codes) (weather_alerts st))
               = alerts_of v (weather_alerts st)"
      using nc unfolding alerts_of_def filter_filter by (intro filter_cong) auto
    ultimately show ?thesis using u nc by (simp add: alerts_of_def)
  qed
  from u rows part1 part2 show ?thesis
    by (simp add: alert_calls_def visits)
qed

theorem alert_writer_replace_witness:
  "collect_alerts ex_results [] []
     = Inr ([ex_alert_row ''A'' ''Flood'', ex_alert_row ''B'' ''Storm''], [JStr ''A'', JStr ''B''])
   \<and> set (rev [JStr ''A'', JStr ''B'']) = set [JStr ''A'', JStr ''B'']
   \<and> fst (upsert_alerts rev (\<lambda>k. False) ex_results ex_alert_store) = Inr 2
   \<and> calls (snd (upsert_alerts rev (\<lambda>k. False) ex_results ex_alert_store))
       = [DeleteEq (JStr ''B''), DeleteEq (JStr ''A''),
          Insert [ex_alert_row ''A'' ''Flood'', ex_alert_row ''B'' ''Storm'']]
   \<and> alerts_of (JStr ''A'') (weather_alerts (snd (upsert_alerts rev (\<lambda>k. False) ex_results ex_alert_store)))
       = [ex_alert_row ''A'' ''Flood'']
   \<and> alerts_of (JStr ''B'') (weather_alerts (snd (upsert_alerts rev (\<lambda>k. False) ex_results ex_alert_store)))
       = [ex_alert_row ''B'' ''Storm'']
   \<and> alerts_of (JStr ''C'') (weather_alerts (snd (upsert_alerts rev (\<lambda>k. False) ex_results ex_alert_store)))
       = [ex_alert_row ''C'' ''Old'']"
proof -
  let ?rows = "[ex_alert_row ''A'' ''Flood'', ex_alert_row ''B'' ''Storm'']"
  have visits: "set (rev [JStr ''A'', JStr ''B'']) = set [JStr ''A'', JStr ''B'']"
    by auto
  have ok: "\<forall>i<length (alert_calls (rev [JStr ''A'', JStr ''B'']) ?rows).
              \<not> (\<lambda>k. False) (length (calls ex_alert_store) + i)"
    by simp
  have a: "alerts_of (JStr ''A'') ?rows = [ex_alert_row ''A'' ''Flood'']"
    by (simp add: alerts_of_def ex_alert_row_def)
  have b: "alerts_of (JStr ''B'') ?rows = [ex_alert_row ''B'' ''Storm'']"
    by (simp add: alerts_of_def ex_alert_row_def)
  have c: "alerts_of (JStr ''C'') (weather_alerts ex_alert_store) = [ex_alert_row ''C'' ''Old'']"
    by (simp add: alerts_of_def ex_alert_row_def ex_alert_store_def)
  have e: "calls ex_alert_store = []"
    by (simp add: ex_alert_store_def)
  from alert_writer_replace[where order = rev and fails = "\<lambda>k. False" and st = ex_alert_store,
         OF ex_collect visits ok] ex_collect visits a b c e
  show ?thesis
    by (simp add: ex_results_def has_alerts_def dict_get_def chunks_def range_step_def)
qed

text \<open>
  C7. When a call of the delete/insert sequence raises (the call number \<open>k\<close> of the
  sequence, the deletes being taken in the order in which the set of ward codes is
  iterated, being the first to do so), the alert writer issues no further call and
  returns zero as a normal result: the exception does not leave the writer.
\<close>

theorem alert_writer_failure:
  assumes collect: "collect_alerts ws [] [] = Inr (alert_rows, codes)"
      and visits: "set (order codes) = set codes"
      and k: "k < length (alert_calls (order codes) alert_rows)"
      and bad: "fails (length (calls st) + k)"
      and first: "\<forall>i<k. \<not> fails (length (calls st) + i)"
  shows "fst (upsert_alerts order fails ws st) = Inr 0
       \<and> calls (snd (upsert_alerts order fails ws st))
           = calls st @ take (Suc k) (alert_calls (order codes) alert_rows)"
proof -
  let ?starts = "range_step (length alert_rows) 500"
  have ne: "alert_rows \<noteq> []"
  proof (cases "codes = []")
    case True
    with visits have "order codes = []" by (simp add: order_Nil)
    with k show ?thesis by (auto simp: alert_calls_def)
  next
    case False
    with collect_alerts_codes_rows[OF collect] show ?thesis by blast
  qed
  show ?thesis
  proof (cases "k < length (order codes)")
    case True
    from delete_alerts_fail[OF True bad first] True ne collect show ?thesis
      by (simp add: upsert_alerts_def Let_def alert_calls_def take_map)
  next
    case False
    let ?d = "delete_alerts fails (order codes) st"
    have dok: "\<forall>i<length (order codes). \<not> fails (length (calls st) + i)"
      using first False by simp
    note d = delete_alerts_ok[OF dok]
    let ?k = "k - length (order codes)"
    have a: "?k < length ?starts"
      using k False by (simp add: alert_calls_def chunks_def)
    have b: "fails (length (calls (snd ?d)) + ?k)"
      using bad False d by (simp add: add.assoc)
    have c: "\<forall>i<?k. \<not> fails (length (calls (snd ?d)) + i)"
    proof (intro allI impI)
      fix i assume "i < ?k"
      then have "length (order codes) + i < k" by simp
      with first have "\<not> fails (length (calls st) + (length (order codes) + i))" by blast
      then show "\<not> fails (length (calls (snd ?d)) + i)" using d by (simp add: add.assoc)
    qed
    from insert_chunks_fail[OF a b c, of alert_rows 500 0] d False ne collect
    show ?thesis
      by (simp add: upsert_alerts_def Let_def alert_calls_def chunks_def take_map Suc_diff_le)
  qed
qed

theorem alert_writer_failure_witness:
  "collect_alerts ex_results [] []
     = Inr ([ex_alert_row ''A'' ''Flood'', ex_alert_row ''B'' ''Storm''], [JStr ''A'', JStr ''B''])
   \<and> set (rev [JStr ''A'', JStr ''B'']) = set [JStr ''A'', JStr ''B'']
   \<and> fst (upsert_alerts rev (\<lambda>k. k = 0) ex_results ex_alert_store) = Inr 0
   \<and> calls (snd (upsert_alerts rev (\<lambda>k. k = 0) ex_results ex_alert_store))
       = [DeleteEq (JStr ''B'')]
   \<and> fst (upsert_alerts rev (\<lambda>k. k = 2) ex_results ex_alert_store) = Inr 0
   \<and> calls (snd (upsert_alerts rev (\<lambda>k. k = 2) ex_results ex_alert_store))
       = [DeleteEq (JStr ''B''), DeleteEq (JStr ''A''),
          Insert [ex_alert_row ''A'' ''Flood'', ex_alert_row ''B'' ''Storm'']]"
proof -
  let ?rows = "[ex_alert_row ''A'' ''Flood'', ex_alert_row ''B'' ''Storm'']"
  have visits: "set (rev [JStr ''A'', JStr ''B'']) = set [JStr ''A'', JStr ''B'']"
    by auto
  have e: "calls ex_alert_store = []"
    by (simp add: ex_alert_store_def)
  have k0: "0 < length (alert_calls (rev [JStr ''A'', JStr ''B'']) ?rows)"
    by (simp add: ex_alert_calls)
  have bad0: "(\<lambda>k. k = 0) (length (calls ex_alert_store) + 0)"
    by (simp add: e)
  have first0: "\<forall>i<0. \<not> (\<lambda>k. k = 0) (length (calls ex_alert_store) + i)"
    by simp
  have k2: "2 < length (alert_calls (rev [JStr ''A'', JStr ''B'']) ?rows)"
    by (simp add: ex_alert_calls)
  have bad2: "(\<lambda>k. k = 2) (length (calls ex_alert_store) + 2)"
    by (simp add: e)
  have first2: "\<forall>i<2. \<not> (\<lambda>k. k = 2) (length (calls ex_alert_store) + i)"
    by (simp add: e)
  from alert_writer_failure[where order = rev and fails = "\<lambda>k. k = 0" and st = ex_alert_store,
         OF ex_collect visits k0 bad0 first0]
       alert_writer_failure[where order = rev and fails = "\<lambda>k. k = 2" and st = ex_alert_store,
         OF ex_collect visits k2 bad2 first2] ex_collect visits e
  show ?thesis
    by (simp add: ex_alert_calls)
qed

section \<open>The batch loop\<close>

lemma attempts_normalized:
  "snd (attempts net wc as) = Inr (Some r) \<Longrightarrow> \<exists>data. parse_response data wc = Inr r"
proof (induction as)
  case Nil
  then show ?case by simp
next
  case (Cons a as)
  then show ?case
    by (auto simp: retry_after_def ebind_eq_Inr split: response.splits body.splits if_splits)
qed

lemma gather_length: "gather net b batch = Inr results \<Longrightarrow> length results = length batch"
  by (auto simp: gather_def dest: mapM_length)

lemma gather_nth:
  assumes "gather net b batch = Inr results" and "j < length batch"
  shows "snd (fetch_ward_weather (net (b + j)) (ward_code (batch ! j))) = Inr (results ! j)"
  using mapM_nth[OF assms(1)[unfolded gather_def], of j] assms(2)
  by (simp add: nth_enumerate_eq)

lemma gather_normalized:
  assumes "gather net b batch = Inr results" and "Some r \<in> set results"
  shows "\<exists>data wc. parse_response data wc = Inr r"
proof -
  from mapM_all[OF assms(1)[unfolded gather_def] assms(2)]
  obtain i and w :: ward where "snd (fetch_ward_weather (net i) (ward_code w)) = Inr (Some r)"
    by auto
  then show ?thesis
    unfolding fetch_ward_weather_def by (blast dest: attempts_normalized)
qed

lemma not_none_normalized:
  assumes "gather net b batch = Inr results" and "r \<in> set (not_none results)"
  shows "\<exists>data wc. parse_response data wc = Inr r"
proof -
  from assms(2) have "Some r \<in> set results"
    by (auto simp: not_none_def)
  with assms(1) show ?thesis by (rule gather_normalized)
qed

lemma write_batch_normalized:
  assumes "rs \<noteq> []" and "\<forall>r\<in>set rs. \<exists>data wc. parse_response data wc = Inr r"
  shows "write_batch order fails now rs st = (Some (KeyError ''latitude''), st)"
proof -
  from assms obtain r rest data wc where "rs = r # rest" "parse_response data wc = Inr r"
    by (cases rs) auto
  then show ?thesis
    by (simp add: write_batch_def upsert_weather_batch_normalized)
qed

lemma failures_not_none: "length results - length (not_none results) = failures results"
proof -
  have "length (filter (\<lambda>r. r \<noteq> None) results) + length (filter (\<lambda>r. r = None) results)
          = length results"
    using sum_length_filter_compl[of "\<lambda>r. r \<noteq> None" results] by simp
  then show ?thesis by (simp add: failures_def not_none_def)
qed

lemma batch_body_gathered:
  assumes "gather net batch_start (batch_of cfg wards batch_start) = Inr results"
  shows "all_results (snd (batch_body cfg wards net order fails now batch_start s))
           = all_results s @ not_none results
       \<and> failed_count (snd (batch_body cfg wards net order fails now batch_start s))
           = failed_count s + failures results
       \<and> db (snd (batch_body cfg wards net order fails now batch_start s)) = db s
       \<and> fst (batch_body cfg wards net order fails now batch_start s)
           = (if not_none results = [] then None else Some (KeyError ''latitude''))"
proof (cases "not_none results = []")
  case True
  with assms failures_not_none[of results] show ?thesis
    by (simp add: batch_body_def batch_of_def Let_def)
next
  case False
  have "write_batch order fails (now batch_start) (not_none results) st
          = (Some (KeyError ''latitude''), st)" for st
    using False not_none_normalized[OF assms] by (intro write_batch_normalized) auto
  with False assms show ?thesis
    by (simp add: batch_body_def batch_of_def Let_def failures_not_none)
qed


lemma failures_split [simp]:
  "failures (xs @ None # ys) = failures xs + 1 + failures ys"
  by (simp add: failures_def)

lemma not_none_split [simp]:
  "not_none (xs @ None # ys) = not_none xs @ not_none ys"
  by (simp add: not_none_def)

lemma main_first_batch_success:
  assumes "\<not> env_missing (api_key cfg)" and "\<not> env_missing (supabase_url cfg)"
      and "\<not> env_missing (supabase_key cfg)" and "wards \<noteq> []" and "0 < batch_size cfg"
      and g: "gather net 0 (batch_of cfg wards 0) = Inr results"
      and some: "not_none results \<noteq> []"
  shows "fst (main cfg wards net order fails now elapsed round1 st0) = Raised (KeyError ''latitude'')"
    and "db (snd (main cfg wards net order fails now elapsed round1 st0)) = st0"
proof -
  let ?s0 = "\<lparr>all_results = [], failed_count = 0, db = st0, throttles = []\<rparr>"
  from assms(4,5) obtain rest where r: "range_step (length wards) (nat (batch_size cfg)) = 0 # rest"
    using range_step_Cons[of "length wards" "nat (batch_size cfg)"] by auto
  note b = batch_body_gathered[OF g, of order fails now ?s0]
  from b some have f: "fst (batch_body cfg wards net order fails now 0 ?s0) = Some (KeyError ''latitude'')"
    by simp
  from b have d: "db (snd (batch_body cfg wards net order fails now 0 ?s0)) = st0" by simp
  from assms(1-5) r f
  show "fst (main cfg wards net order fails now elapsed round1 st0) = Raised (KeyError ''latitude'')"
    by (simp add: main_def Let_def)
  from assms(1-5) r f d
  show "db (snd (main cfg wards net order fails now elapsed round1 st0)) = st0"
    by (simp add: main_def Let_def)
qed

lemma ex_fetch:
  "snd (fetch_ward_weather (ex_net i) wc)
     = Inr (if i = 3 \<or> i = 77 then None else Some (empty_record wc))"
  by (simp add: fetch_ward_weather_def ex_net_def retry_after_def parse_response_empty)

lemma ex_gather:
  "gather ex_net b batch
     = Inr (map (\<lambda>iw. if fst iw = 3 \<or> fst iw = 77 then None
                        else Some (empty_record (ward_code (snd iw)))) (enumerate b batch))"
  unfolding gather_def by (rule mapM_map) (simp add: ex_fetch)

lemma ex_first_batch: "\<exists>w rest. batch_of ex_config ex_wards 0 = w # rest"
proof -
  have "take 50 [0..<120] = 0 # [1..<50]"
    by (simp add: take_upt upt_conv_Cons)
  then show ?thesis
    by (simp add: batch_of_def ex_config_def ex_wards_def take_map)
qed


text \<open>
  C3. When every attempt for a ward meets a transport-level failure, its fetch makes three
  requests, sleeps 2 seconds after the first failure and 4 seconds after the second, and
  returns the failure signal \<open>None\<close>. In the batch that holds the ward (provided no other
  fetch of the batch raised), the ward is counted once in the failed count, contributes
  nothing to the results handed to the writers, and the store is left as it was: no
  weather row is written for it.
\<close>

theorem transport_failures_count_as_failed:
  assumes n0: "net i 0 = ClientError" and n1: "net i 1 = ClientError" and n2: "net i 2 = ClientError"
      and j: "j < length (batch_of cfg wards batch_start)" and i: "i = batch_start + j"
      and g: "gather net batch_start (batch_of cfg wards batch_start) = Inr results"
  shows "fetch_ward_weather (net i) wc = ([Request, Sleep 2, Request, Sleep 4, Request], Inr None)
       \<and> results ! j = None
       \<and> failed_count (snd (batch_body cfg wards net order fails now batch_start s))
           = failed_count s + failures (take j results) + 1 + failures (drop (Suc j) results)
       \<and> all_results (snd (batch_body cfg wards net order fails now batch_start s))
           = all_results s @ not_none (take j results) @ not_none (drop (Suc j) results)
       \<and> db (snd (batch_body cfg wards net order fails now batch_start s)) = db s"
proof -
  note f = fetch_all_transport_errors[OF n0 n1 n2]
  from gather_nth[OF g j] f i have r: "results ! j = None" by simp
  from gather_length[OF g] j have len: "j < length results" by simp
  from id_take_nth_drop[OF len] r
  have split: "results = take j results @ None # drop (Suc j) results" by simp
  have "failures results = failures (take j results) + 1 + failures (drop (Suc j) results)"
    by (subst split) (rule failures_split)
  moreover have "not_none results = not_none (take j results) @ not_none (drop (Suc j) results)"
    by (subst split) (rule not_none_split)
  ultimately show ?thesis
    using batch_body_gathered[OF g, of order fails now s] f r by simp
qed

theorem transport_failures_count_as_failed_witness:
  "gather ex_net2 0 (batch_of (ex_config\<lparr>batch_size := 2\<rparr>) ex_two_wards 0)
       = Inr [None, Some (empty_record ''W2'')]
   \<and> fetch_ward_weather (ex_net2 0) ''W1''
       = ([Request, Sleep 2, Request, Sleep 4, Request], Inr None)
   \<and> failed_count (snd (batch_body (ex_config\<lparr>batch_size := 2\<rparr>) ex_two_wards ex_net2
        rev (\<lambda>k. False) (\<lambda>b. ''2026-01-01T00:00:00+00:00'') 0
        \<lparr>all_results = [], failed_count = 0, db = ex_alert_store, throttles = []\<rparr>)) = 1
   \<and> all_results (snd (batch_body (ex_config\<lparr>batch_size := 2\<rparr>) ex_two_wards ex_net2
        rev (\<lambda>k. False) (\<lambda>b. ''2026-01-01T00:00:00+00:00'') 0
        \<lparr>all_results = [], failed_count = 0, db = ex_alert_store, throttles = []\<rparr>))
       = [empty_record ''W2'']
   \<and> db (snd (batch_body (ex_config\<lparr>batch_size := 2\<rparr>) ex_two_wards ex_net2
        rev (\<lambda>k. False) (\<lambda>b. ''2026-01-01T00:00:00+00:00'') 0
        \<lparr>all_results = [], failed_count = 0, db = ex_alert_store, throttles = []\<rparr>))
       = ex_alert_store"
proof -
  let ?cfg = "ex_config\<lparr>batch_size := 2\<rparr>"
  let ?s = "\<lparr>all_results = [], failed_count = 0, db = ex_alert_store, throttles = []\<rparr>"
  have b: "batch_of ?cfg ex_two_wards 0 = ex_two_wards"
    by (simp add: batch_of_def ex_config_def ex_two_wards_def)
  have g: "gather ex_net2 0 (batch_of ?cfg ex_two_wards 0) = Inr [None, Some (empty_record ''W2'')]"
    unfolding b
    by (simp add: ex_two_wards_def ex_net2_def gather_def fetch_ward_weather_def retry_after_def
        parse_response_empty)
  have j: "0 < length (batch_of ?cfg ex_two_wards 0)"
    unfolding b by (simp add: ex_two_wards_def)
  have n: "ex_net2 0 0 = ClientError" "ex_net2 0 1 = ClientError" "ex_net2 0 2 = ClientError"
    by (simp_all add: ex_net2_def)
  from transport_failures_count_as_failed[OF n j _ g, of "''W1''" rev "\<lambda>k. False"
         "\<lambda>b. ''2026-01-01T00:00:00+00:00''" ?s] g
  show ?thesis
    by (simp add: failures_def not_none_def)
qed

section \<open>Runs that reach the summary\<close>

text \<open>
  A batch whose loop body ends without an exception had no successful fetch: its wards all
  count as failed. Hence a run that reaches the summary reports every ward as failed; the
  counters add up to the number of wards, and the throughput is zero when no time elapsed.
\<close>

lemma batch_of_slice: "batch_of cfg wards b = take (nat (batch_size cfg)) (drop b wards)"
proof -
  have "min (b + nat (batch_size cfg)) (length wards) - b
          = min (nat (batch_size cfg)) (length wards - b)"
    by auto
  then show ?thesis
    by (simp add: batch_of_def min_def)
qed

lemma batch_body_None:
  assumes "fst (batch_body cfg wards net order fails now b s) = None"
  shows "all_results (snd (batch_body cfg wards net order fails now b s)) = all_results s
       \<and> failed_count (snd (batch_body cfg wards net order fails now b s))
           = failed_count s + length (batch_of cfg wards b)"
proof (cases "gather net b (batch_of cfg wards b)")
  case (Inl e)
  with assms show ?thesis
    by (simp add: batch_body_def batch_of_def)
next
  case (Inr results)
  note bb = batch_body_gathered[OF Inr, of order fails now s]
  from bb assms have nn: "not_none results = []"
    by (simp split: if_splits)
  with failures_not_none[of results] gather_length[OF Inr]
  have "failures results = length (batch_of cfg wards b)" by simp
  with bb nn show ?thesis by simp
qed

lemma batches_None:
  assumes "fst (batches cfg wards net order fails now starts s) = None"
  shows "all_results (snd (batches cfg wards net order fails now starts s)) = all_results s
       \<and> failed_count (snd (batches cfg wards net order fails now starts s))
           = failed_count s + length (concat (map (batch_of cfg wards) starts))"
  using assms
proof (induction starts arbitrary: s)
  case Nil
  then show ?case by simp
next
  case (Cons b starts)
  let ?r = "batch_body cfg wards net order fails now b s"
  from Cons.prems have f: "fst ?r = None"
    by (simp add: Let_def split: option.splits)
  with Cons.prems have rest: "fst (batches cfg wards net order fails now starts (snd ?r)) = None"
    by (simp add: Let_def)
  from Cons.IH[OF rest] batch_body_None[OF f] f show ?case
    by (simp add: Let_def)
qed

lemma completed_runs_have_no_success:
  assumes "fst (main cfg wards net order fails now elapsed round1 st0) = Completed sm"
  shows "total_wards sm = length wards \<and> successful sm = 0 \<and> failed sm = length wards
       \<and> successful sm + failed sm = total_wards sm
       \<and> (elapsed \<le> 0 \<longrightarrow> wards_per_second sm = 0)"
proof -
  let ?s0 = "\<lparr>all_results = [], failed_count = 0, db = st0, throttles = []\<rparr>"
  let ?r = "batches cfg wards net order fails now (range_step (length wards) (nat (batch_size cfg))) ?s0"
  from assms have pos: "0 < batch_size cfg" and f: "fst ?r = None"
    and sm: "sm = \<lparr>total_wards = length wards,
                     successful = length (all_results (snd ?r)),
                     failed = failed_count (snd ?r),
                     elapsed_seconds = round1 elapsed,
                     wards_per_second =
                       (if elapsed > 0 then round1 (of_nat (length wards) / elapsed) else 0)\<rparr>"
    by (auto simp: main_def Let_def split: if_splits option.splits)
  have "map (batch_of cfg wards) (range_step (length wards) (nat (batch_size cfg)))
          = chunks (nat (batch_size cfg)) wards"
    by (simp add: chunks_def batch_of_slice)
  with concat_chunks[of "nat (batch_size cfg)" wards] pos
  have "concat (map (batch_of cfg wards) (range_step (length wards) (nat (batch_size cfg)))) = wards"
    by simp
  with batches_None[OF f] sm show ?thesis by simp
qed

section \<open>Runs with a successful fetch\<close>

text \<open>
  C1. For the ward \<open>W1\<close> answered with HTTP 200 and the example payload, the fetch returns
  the normalized record, but the weather writer raises \<open>KeyError\<close> on it before any call to
  the store; the run of \<open>main\<close> over this single ward ends with that exception and the
  store unchanged, so no row is persisted.
\<close>

theorem fetched_record_is_not_written:
  "snd (fetch_ward_weather (\<lambda>n. Response 200 (Json ex_payload)) ''W1'') = Inr (Some ex_normalized)
   \<and> upsert_weather_batch now fails [ex_normalized] st = (Inl (KeyError ''latitude''), st)
   \<and> fst (main ex_config [\<lparr>ward_code = ''W1'', latitude = -26, longitude = 28\<rparr>]
             (\<lambda>i n. Response 200 (Json ex_payload)) order fails clock elapsed round1 st)
       = Raised (KeyError ''latitude'')
   \<and> db (snd (main ex_config [\<lparr>ward_code = ''W1'', latitude = -26, longitude = 28\<rparr>]
                  (\<lambda>i n. Response 200 (Json ex_payload)) order fails clock elapsed round1 st)) = st"
proof -
  let ?wards = "[\<lparr>ward_code = ''W1'', latitude = -26, longitude = 28\<rparr>]"
  let ?net = "\<lambda>(i::nat) (n::nat). Response 200 (Json ex_payload)"
  have f: "snd (fetch_ward_weather (\<lambda>n. Response 200 (Json ex_payload)) ''W1'')
             = Inr (Some ex_normalized)"
    by (simp add: fetch_ward_weather_def ex_parse)
  have u: "upsert_weather_batch now fails [ex_normalized] st = (Inl (KeyError ''latitude''), st)"
    using ex_parse by (rule upsert_weather_batch_normalized)
  have g: "gather ?net 0 (batch_of ex_config ?wards 0) = Inr [Some ex_normalized]"
    by (simp add: gather_def batch_of_def ex_config_def f)
  have some: "not_none [Some ex_normalized] \<noteq> []"
    by (simp add: not_none_def)
  have m1: "fst (main ex_config ?wards ?net order fails clock elapsed round1 st) = Raised (KeyError ''latitude'')"
    by (rule main_first_batch_success(1)[OF _ _ _ _ _ g some]) (simp_all add: ex_config_def)
  have m2: "db (snd (main ex_config ?wards ?net order fails clock elapsed round1 st)) = st"
    by (rule main_first_batch_success(2)[OF _ _ _ _ _ g some]) (simp_all add: ex_config_def)
  from f u m1 m2 show ?thesis by simp
qed

text \<open>
  C9. In the scenario of 120 wards, batch size 50, with two wards failing on every attempt
  and the others fetched successfully, \<open>main\<close> does not reach the summary: the write of the
  first batch raises \<open>KeyError\<close>.
\<close>

theorem scenario_120_wards_raises:
  "fst (main ex_config ex_wards ex_net order fails now elapsed round1 st0) = Raised (KeyError ''latitude'')"
proof -
  from ex_first_batch obtain w rest where b: "batch_of ex_config ex_wards 0 = w # rest" by blast
  let ?results = "map (\<lambda>iw. if fst iw = 3 \<or> fst iw = 77 then None
                        else Some (empty_record (ward_code (snd iw))))
                   (enumerate 0 (batch_of ex_config ex_wards 0))"
  have some: "not_none ?results \<noteq> []"
    unfolding b by (simp add: not_none_def)
  show ?thesis
    by (rule main_first_batch_success(1)[OF _ _ _ _ _ ex_gather some])
       (simp_all add: ex_config_def ex_wards_def)
qed

section \<open>Missing fields in the normalized record\<close>

lemma forecast_day_nulls:
  assumes "forecast_day d = Inr out"
  shows "\<exists>od. out = JObj od \<and> nulls_for day_fields d od"
proof -
  from assms obtain day_info astro day_condition od
    where a: "py_get d ''day'' (JObj []) = Inr day_info"
      and b: "py_get d ''astro'' (JObj []) = Inr astro"
      and c: "py_get day_info ''condition'' (JObj []) = Inr day_condition"
      and l: "dict_literal
       [(''date'', py_get d ''date'' JNull),
        (''maxtemp_c'', py_get day_info ''maxtemp_c'' JNull),
        (''mintemp_c'', py_get day_info ''mintemp_c'' JNull),
        (''avgtemp_c'', py_get day_info ''avgtemp_c'' JNull),
        (''maxwind_kph'', py_get day_info ''maxwind_kph'' JNull),
        (''totalprecip_mm'', py_get day_info ''totalprecip_mm'' JNull),
        (''avghumidity'', py_get day_info ''avghumidity'' JNull),
        (''condition_text'', py_get day_condition ''text'' JNull),
        (''condition_icon'', py_get day_condition ''icon'' JNull),
        (''daily_chance_of_rain'', py_get day_info ''daily_chance_of_rain'' JNull),
        (''daily_chance_of_snow'', py_get day_info ''daily_chance_of_snow'' JNull),
        (''uv'', py_get day_info ''uv'' JNull),
        (''sunrise'', py_get astro ''sunrise'' JNull),
        (''sunset'', py_get astro ''sunset'' JNull)] = Inr od"
      and o: "out = JObj od"
    unfolding forecast_day_def by (auto simp: ebind_eq_Inr)
  from dict_literal_object[OF l, of "''maxtemp_c''" day_info "''maxtemp_c''" JNull]
  obtain k1 where k1: "day_info = JObj k1" by auto
  from dict_literal_object[OF l, of "''sunrise''" astro "''sunrise''" JNull]
  obtain k2 where k2: "astro = JObj k2" by auto
  from dict_literal_object[OF l, of "''condition_text''" day_condition "''text''" JNull]
  obtain k3 where k3: "day_condition = JObj k3" by auto
  from a b c l k1 k2 k3 have "nulls_for day_fields d od"
    by (cases d) (auto simp: nulls_for_def day_fields_def sub_def absent_def)
  with o show ?thesis by blast
qed

lemma alert_entry_nulls:
  assumes "alert_entry a = Inr out"
  shows "\<exists>od. out = JObj od \<and> nulls_for alert_fields a od"
proof -
  from assms obtain od
    where l: "dict_literal
       [(''event'', py_get a ''event'' JNull),
        (''headline'', py_get a ''headline'' JNull),
        (''description'', py_get a ''desc'' JNull),
        (''severity'', py_get a ''severity'' JNull),
        (''urgency'', py_get a ''urgency'' JNull),
        (''areas'', py_get a ''areas'' JNull),
        (''category'', py_get a ''category'' JNull),
        (''certainty'', py_get a ''certainty'' JNull),
        (''instruction'', py_get a ''instruction'' JNull),
        (''effective'', py_get a ''effective'' JNull),
        (''expires'', py_get a ''expires'' JNull)] = Inr od"
      and o: "out = JObj od"
    unfolding alert_entry_def by (auto simp: ebind_eq_Inr)
  from dict_literal_object[OF l, of "''event''" a "''event''" JNull]
  obtain kvs where "a = JObj kvs" by auto
  with l have "nulls_for alert_fields a od"
    by (auto simp: nulls_for_def alert_fields_def absent_def)
  with o show ?thesis by blast
qed


text \<open>
  C5, as amended. For every payload the normalizer accepts: each scalar field of the
  record other than the day/night flag that is missing from the payload is \<open>None\<close> in the
  record, and so is each missing field of a forecast day and of an alert; a missing
  \<open>is_day\<close> gives \<open>False\<close>, since the record stores \<open>current.get("is_day") == 1\<close>; a
  missing forecast or alert list gives an empty \<open>forecast_days\<close> or \<open>alerts\<close> list; and
  when the payload has no alerts \<open>alerts_summary\<close> is \<open>None\<close>.
\<close>

theorem normalizer_missing_fields:
  assumes "parse_response data wc = Inr r"
  shows "nulls_for record_fields data r
       \<and> (absent (sub data ''current'') ''is_day'' \<longrightarrow> map_of r ''is_day'' = Some (JBool False))
       \<and> (\<exists>days fds.
             ebind (py_get (sub data ''forecast'') ''forecastday'' (JList [])) py_iter = Inr days
           \<and> map_of r ''forecast_days'' = Some (JList (map JObj fds))
           \<and> list_all2 (nulls_for day_fields) days fds)
       \<and> (\<exists>items als.
             ebind (py_get (sub data ''alerts'') ''alert'' (JList [])) py_iter = Inr items
           \<and> map_of r ''alerts'' = Some (JList (map JObj als))
           \<and> list_all2 (nulls_for alert_fields) items als
           \<and> map_of r ''alerts_summary'' = Some (if items = [] then JNull else JList (map JObj als)))
       \<and> (absent (sub data ''forecast'') ''forecastday'' \<longrightarrow>
             map_of r ''forecast_days'' = Some (JList []))
       \<and> (absent (sub data ''alerts'') ''alert'' \<longrightarrow>
             map_of r ''alerts'' = Some (JList []) \<and> map_of r ''alerts_summary'' = Some JNull)"
proof -
  from assms obtain current forecast alerts_data condition forecastday days forecast_days
      alert_list alert_items alerts
    where g1: "py_get data ''current'' (JObj []) = Inr current"
      and g2: "py_get data ''forecast'' (JObj []) = Inr forecast"
      and g3: "py_get data ''alerts'' (JObj []) = Inr alerts_data"
      and g4: "py_get current ''condition'' (JObj []) = Inr condition"
      and g5: "py_get forecast ''forecastday'' (JList []) = Inr forecastday"
      and g6: "py_iter forecastday = Inr days"
      and g7: "mapM forecast_day days = Inr forecast_days"
      and g8: "py_get alerts_data ''alert'' (JList []) = Inr alert_list"
      and g9: "py_iter alert_list = Inr alert_items"
      and g10: "mapM alert_entry alert_items = Inr alerts"
      and l: "dict_literal
       [(''ward_code'', Inr (JStr wc)),
        (''temperature_c'', py_get current ''temp_c'' JNull),
        (''condition_text'', py_get condition ''text'' JNull),
        (''condition_icon'', py_get condition ''icon'' JNull),
        (''wind_kph'', py_get current ''wind_kph'' JNull),
        (''humidity'', py_get current ''humidity'' JNull),
        (''is_day'', ebind (py_get current ''is_day'' JNull)
                       (\<lambda>v. Inr (JBool (py_eq v (JInt 1))))),
        (''precip_mm'', py_get current ''precip_mm'' JNull),
        (''forecast_days'', Inr (JList forecast_days)),
        (''alerts'', Inr (JList alerts)),
        (''alerts_summary'', Inr (if alerts \<noteq> [] then JList alerts else JNull)),
        (''raw'', Inr data)] = Inr r"
    unfolding parse_response_def by (auto simp only: ebind_eq_Inr)
  from py_get_Inr[OF g1] obtain kd where kd: "data = JObj kd" by auto
  from py_get_Inr[OF g4] obtain kc where kc: "current = JObj kc" by auto
  from py_get_Inr[OF g5] obtain kf where kf: "forecast = JObj kf" by auto
  from py_get_Inr[OF g8] obtain ka where ka: "alerts_data = JObj ka" by auto
  from dict_literal_object[OF l, of "''condition_text''" condition "''text''" JNull]
  obtain kk where kk: "condition = JObj kk" by auto
  have "\<exists>ds. forecast_days = map JObj ds \<and> list_all2 (nulls_for day_fields) days ds"
  proof (rule mapM_objects[where f = forecast_day and P = "nulls_for day_fields"])
    show "mapM forecast_day days = Inr forecast_days" by (rule g7)
  next
    fix x y assume "forecast_day x = Inr y"
    then show "\<exists>d. y = JObj d \<and> nulls_for day_fields x d" by (rule forecast_day_nulls)
  qed
  then obtain fds
    where fds: "forecast_days = map JObj fds" "list_all2 (nulls_for day_fields) days fds" by blast
  have "\<exists>ds. alerts = map JObj ds \<and> list_all2 (nulls_for alert_fields) alert_items ds"
  proof (rule mapM_objects[where f = alert_entry and P = "nulls_for alert_fields"])
    show "mapM alert_entry alert_items = Inr alerts" by (rule g10)
  next
    fix x y assume "alert_entry x = Inr y"
    then show "\<exists>d. y = JObj d \<and> nulls_for alert_fields x d" by (rule alert_entry_nulls)
  qed
  then obtain als
    where als: "alerts = map JObj als" "list_all2 (nulls_for alert_fields) alert_items als" by blast
  have len: "length alerts = length alert_items" using mapM_length[OF g10] .
  have c1: "nulls_for record_fields data r"
    using g1 g4 l kd kc kk
    by (auto simp: nulls_for_def record_fields_def sub_def absent_def)
  have c2: "absent (sub data ''current'') ''is_day'' \<longrightarrow> map_of r ''is_day'' = Some (JBool False)"
    using g1 l kd kc kk
    by (auto simp: sub_def absent_def py_eq_def)
  have s1: "sub data ''forecast'' = forecast" "sub data ''alerts'' = alerts_data"
    using g2 g3 by (simp_all add: sub_def)
  have c3: "ebind (py_get (sub data ''forecast'') ''forecastday'' (JList [])) py_iter = Inr days
           \<and> map_of r ''forecast_days'' = Some (JList (map JObj fds))
           \<and> list_all2 (nulls_for day_fields) days fds"
    using g5 g6 l kc kk fds by (auto simp: s1)
  have c4: "ebind (py_get (sub data ''alerts'') ''alert'' (JList [])) py_iter = Inr alert_items
           \<and> map_of r ''alerts'' = Some (JList (map JObj als))
           \<and> list_all2 (nulls_for alert_fields) alert_items als
           \<and> map_of r ''alerts_summary''
               = Some (if alert_items = [] then JNull else JList (map JObj als))"
    using g8 g9 l kc kk als len by (auto simp: s1)
  have c5: "absent (sub data ''forecast'') ''forecastday'' \<longrightarrow>
             map_of r ''forecast_days'' = Some (JList [])"
    using g5 g6 g7 l kc kk kf by (auto simp: s1 absent_def)
  have c6: "absent (sub data ''alerts'') ''alert'' \<longrightarrow>
             map_of r ''alerts'' = Some (JList []) \<and> map_of r ''alerts_summary'' = Some JNull"
    using g8 g9 g10 l kc kk ka by (auto simp: s1 absent_def)
  from c3 have c3': "\<exists>days fds.
             ebind (py_get (sub data ''forecast'') ''forecastday'' (JList [])) py_iter = Inr days
           \<and> map_of r ''forecast_days'' = Some (JList (map JObj fds))
           \<and> list_all2 (nulls_for day_fields) days fds" by blast
  from c4 have c4': "\<exists>items als.
             ebind (py_get (sub data ''alerts'') ''alert'' (JList [])) py_iter = Inr items
           \<and> map_of r ''alerts'' = Some (JList (map JObj als))
           \<and> list_all2 (nulls_for alert_fields) items als
           \<and> map_of r ''alerts_summary'' = Some (if items = [] then JNull else JList (map JObj als))"
    by blast
  from c1 c2 c3' c4' c5 c6 show ?thesis by (intro conjI)
qed

theorem normalizer_missing_fields_witness:
  "parse_response (JObj []) ''W1'' = Inr (empty_record ''W1'')
   \<and> nulls_for record_fields (JObj []) (empty_record ''W1'')
   \<and> map_of (empty_record ''W1'') ''is_day'' = Some (JBool False)
   \<and> map_of (empty_record ''W1'') ''forecast_days'' = Some (JList [])
   \<and> map_of (empty_record ''W1'') ''alerts'' = Some (JList [])
   \<and> map_of (empty_record ''W1'') ''alerts_summary'' = Some JNull"
  using normalizer_missing_fields[OF parse_response_empty, of "''W1''"] parse_response_empty
  by (simp add: absent_def sub_def)

text \<open>
  The claim C5 as stated fails on the day/night flag: for a payload without \<open>is_day\<close>
  the record holds \<open>False\<close>, which reads as "night", not \<open>None\<close>.
\<close>

theorem missing_is_day_is_False:
  "record_field (parse_response (JObj []) ''W1'') ''is_day'' = Some (JBool False)"
  by (simp add: record_field_def parse_response_empty_payload)

end
